theory Spec2Isabelle
  imports Complex_Main
begin

section \<open>JavaScript strings\<close>

text \<open>
  A JavaScript string is a sequence of UTF-16 code units. The development works on
  \<^typ>\<open>string\<close>, whose characters are the code units \<open>0x00\<close> to \<open>0xFF\<close> (Latin-1);
  \<open>length\<close> is the \<open>.length\<close> of the string. On that range \<open>toLowerCase\<close> maps
  unit by unit and keeps the length, the white space of \<open>\s\<close> and \<open>trim()\<close> is
  TAB, LF, VT, FF, CR, SPACE and NBSP, and the line terminators of \<open>.\<close>, \<open>^\<close> and
  \<open>$\<close> are LF and CR.
\<close>

abbreviation LF :: char where "LF \<equiv> CHR 0x0A"
abbreviation CR :: char where "CR \<equiv> CHR 0x0D"
abbreviation DQUOTE :: char where "DQUOTE \<equiv> CHR 0x22"
abbreviation BACKSLASH :: char where "BACKSLASH \<equiv> CHR 0x5C"

definition is_space :: "char \<Rightarrow> bool" where
  "is_space c = (c \<in> set [CHR 0x09, LF, CHR 0x0B, CHR 0x0C, CR, CHR 0x20, CHR 0xA0])"

definition is_line_terminator :: "char \<Rightarrow> bool" where
  "is_line_terminator c = (c = LF \<or> c = CR)"

definition is_digit :: "char \<Rightarrow> bool" where
  "is_digit c = (c \<in> set ''0123456789'')"

definition is_upper_ascii :: "char \<Rightarrow> bool" where
  "is_upper_ascii c = (c \<in> set ''ABCDEFGHIJKLMNOPQRSTUVWXYZ'')"

definition is_lower_ascii :: "char \<Rightarrow> bool" where
  "is_lower_ascii c = (c \<in> set ''abcdefghijklmnopqrstuvwxyz'')"

text \<open>The class \<open>\w\<close>: \<open>[A-Za-z0-9_]\<close>.\<close>

definition is_word_char :: "char \<Rightarrow> bool" where
  "is_word_char c = (is_upper_ascii c \<or> is_lower_ascii c \<or> is_digit c \<or> c = CHR ''_'')"

text \<open>\<open>String.prototype.trim\<close>.\<close>

definition trim :: "string \<Rightarrow> string" where
  "trim s = rev (dropWhile is_space (rev (dropWhile is_space s)))"

text \<open>
  \<open>String.prototype.toLowerCase\<close> on Latin-1: \<open>A\<close>-\<open>Z\<close> and \<open>0xC0\<close>-\<open>0xDE\<close>
  (without the multiplication sign \<open>0xD7\<close>) move up by \<open>0x20\<close>.
\<close>

definition lower_table :: "(char \<times> char) list" where
  "lower_table =
     zip ''ABCDEFGHIJKLMNOPQRSTUVWXYZ'' ''abcdefghijklmnopqrstuvwxyz'' @
     zip [CHR 0xC0, CHR 0xC1, CHR 0xC2, CHR 0xC3, CHR 0xC4, CHR 0xC5, CHR 0xC6, CHR 0xC7,
          CHR 0xC8, CHR 0xC9, CHR 0xCA, CHR 0xCB, CHR 0xCC, CHR 0xCD, CHR 0xCE, CHR 0xCF,
          CHR 0xD0, CHR 0xD1, CHR 0xD2, CHR 0xD3, CHR 0xD4, CHR 0xD5, CHR 0xD6,
          CHR 0xD8, CHR 0xD9, CHR 0xDA, CHR 0xDB, CHR 0xDC, CHR 0xDD, CHR 0xDE]
         [CHR 0xE0, CHR 0xE1, CHR 0xE2, CHR 0xE3, CHR 0xE4, CHR 0xE5, CHR 0xE6, CHR 0xE7,
          CHR 0xE8, CHR 0xE9, CHR 0xEA, CHR 0xEB, CHR 0xEC, CHR 0xED, CHR 0xEE, CHR 0xEF,
          CHR 0xF0, CHR 0xF1, CHR 0xF2, CHR 0xF3, CHR 0xF4, CHR 0xF5, CHR 0xF6,
          CHR 0xF8, CHR 0xF9, CHR 0xFA, CHR 0xFB, CHR 0xFC, CHR 0xFD, CHR 0xFE]"

definition lower_char :: "char \<Rightarrow> char" where
  "lower_char c = (case map_of lower_table c of Some l \<Rightarrow> l | None \<Rightarrow> c)"

definition toLowerCase :: "string \<Rightarrow> string" where
  "toLowerCase s = map lower_char s"

text \<open>
  \<open>s.indexOf(k, start)\<close>: the start is clamped to the length, the result is the first
  index from there at which \<open>k\<close> occurs, \<open>None\<close> standing for \<open>-1\<close>. The empty
  \<open>k\<close> occurs at every index up to the length.
\<close>

fun find_at :: "string \<Rightarrow> string \<Rightarrow> nat \<Rightarrow> nat option" where
  "find_at k [] i = (if k = [] then Some i else None)"
| "find_at k (c # cs) i =
     (if take (length k) (c # cs) = k then Some i else find_at k cs (Suc i))"

definition indexOf :: "string \<Rightarrow> string \<Rightarrow> nat \<Rightarrow> nat option" where
  "indexOf s k start = (let st = min start (length s) in find_at k (drop st s) st)"

definition includes_str :: "string \<Rightarrow> string \<Rightarrow> bool" where
  "includes_str s k = (indexOf s k 0 \<noteq> None)"

text \<open>
  \<open>s.substring(a, b)\<close>: both indices are clamped to \<open>[0, length]\<close> and swapped when
  the first is the larger.
\<close>

definition substring :: "string \<Rightarrow> int \<Rightarrow> int \<Rightarrow> string" where
  "substring s a b =
     (let len = int (length s);
          a' = max 0 (min a len);
          b' = max 0 (min b len);
          lo = min a' b';
          hi = max a' b'
      in take (nat (hi - lo)) (drop (nat lo) s))"

text \<open>\<open>xs.join(sep)\<close>.\<close>

fun join :: "string \<Rightarrow> string list \<Rightarrow> string" where
  "join sep [] = []"
| "join sep [x] = x"
| "join sep (x # y # ys) = x @ sep @ join sep (y # ys)"

text \<open>
  \<open>s.split(c)\<close> for a separator string of one character: the pieces between the
  occurrences, in order; a string without the separator (the empty one too) is its only
  piece.
\<close>

fun split_char :: "char \<Rightarrow> string \<Rightarrow> string \<Rightarrow> string list" where
  "split_char sep cur [] = [rev cur]"
| "split_char sep cur (c # cs) =
     (if c = sep then rev cur # split_char sep [] cs else split_char sep (c # cur) cs)"

definition split_on :: "char \<Rightarrow> string \<Rightarrow> string list" where
  "split_on sep s = split_char sep [] s"

section \<open>Data model (types.ts)\<close>

datatype Granularity =
    WHOLE | PARAGRAPH | SENTENCE | LINE | TURN | SECTION | HEADING | SUBSECTION
  | FILE | RESPONSE | PHRASE | ROW_COMBINED | ROW_DISTINCT_COLUMNS

datatype DocType = T_text | T_csv | T_markdown

record SourceDocument =
  doc_id :: string
  doc_name :: string
  doc_content :: string
  doc_type :: DocType
  doc_csvHeaders :: "string list option"

datatype Strategy = COMBINE | DISTINCT

record CsvSegmentationConfig =
  targetColumns :: "string list"
  contextColumns :: "string list"
  sentimentContextColumns :: "string list option"
  csv_strategy :: Strategy

text \<open>
  Of a chunk's fields the ones written by segmentation; the optional enrichment fields
  (\<open>startTime\<close>, \<open>endTime\<close>, \<open>sentiment\<close>, \<open>analysis\<close>, \<open>provenance\<close>,
  \<open>isAnalyzed\<close>) are absent from every chunk built here.
\<close>

record Chunk =
  chunk_id :: string
  chunk_text :: string
  chunk_type :: Granularity
  chunk_sourceId :: "string option"
  chunk_sourceName :: "string option"
  chunk_tags :: "string list"

text \<open>
  \<open>generateId\<close> draws from \<open>Math.random\<close>. The draws of a run are a sequence
  \<open>rnd\<close> of identifiers, and the number of draws made so far is the state.
\<close>

type_synonym idsource = "nat \<Rightarrow> string"

definition generateId :: "idsource \<Rightarrow> nat \<Rightarrow> string \<times> nat" where
  "generateId rnd n = (rnd n, Suc n)"

section \<open>Keyword in context (utils/textProcessing.ts)\<close>

record KWIC =
  kwic_left :: string
  kwic_keyword :: string
  kwic_right :: string
  kwic_sourceName :: "string option"
  kwic_chunkId :: string

text \<open>The body of the scan loop at a found occurrence \<open>startIndex\<close>.\<close>

definition kwic_record :: "Chunk \<Rightarrow> string \<Rightarrow> int \<Rightarrow> nat \<Rightarrow> KWIC" where
  "kwic_record chunk keyword windowChars startIndex =
     (let text = chunk_text chunk;
          leftStart = max 0 (int startIndex - windowChars);
          left = substring text leftStart (int startIndex);
          actualKeyword = substring text (int startIndex) (int startIndex + int (length keyword));
          rightEnd = min (int (length text)) (int startIndex + int (length keyword) + windowChars);
          right = substring text (int startIndex + int (length keyword)) rightEnd
      in \<lparr> kwic_left = (if leftStart > 0 then ''...'' else '''') @ left,
           kwic_keyword = actualKeyword,
           kwic_right = right @ (if rightEnd < int (length text) then ''...'' else ''''),
           kwic_sourceName = chunk_sourceName chunk,
           kwic_chunkId = chunk_id chunk \<rparr>)"

text \<open>
  The \<open>while\<close> loop over the occurrences in one chunk. Nothing in the loop bounds the
  number of rounds, so the result is an option: \<open>None\<close> is a loop that never ends.
\<close>

partial_function (option) kwic_while ::
  "Chunk \<Rightarrow> string \<Rightarrow> int \<Rightarrow> nat \<Rightarrow> KWIC list \<Rightarrow> KWIC list option" where
  "kwic_while chunk keyword windowChars startIndex results =
     (case indexOf (toLowerCase (chunk_text chunk)) (toLowerCase keyword) startIndex of
        None \<Rightarrow> Some results
      | Some i \<Rightarrow>
          kwic_while chunk keyword windowChars (i + 1)
            (results @ [kwic_record chunk keyword windowChars i]))"

fun kwic_forEach :: "string \<Rightarrow> int \<Rightarrow> Chunk list \<Rightarrow> KWIC list \<Rightarrow> KWIC list option" where
  "kwic_forEach keyword windowChars [] results = Some results"
| "kwic_forEach keyword windowChars (chunk # chunks) results =
     (case kwic_while chunk keyword windowChars 0 results of
        None \<Rightarrow> None
      | Some results' \<Rightarrow> kwic_forEach keyword windowChars chunks results')"

definition generateKWIC :: "Chunk list \<Rightarrow> string \<Rightarrow> int \<Rightarrow> KWIC list option" where
  "generateKWIC chunks keyword windowChars = kwic_forEach keyword windowChars chunks []"

section \<open>Regular expressions\<close>

text \<open>
  A regular expression of the program is modelled by its matcher at one position of the
  subject: \<open>m pre rest\<close>, where \<open>rest\<close> is the subject from the position on and
  \<open>pre\<close> the part to its left, reversed (the assertions \<open>^\<close> and \<open>$\<close> look at
  the neighbours of the position). The result \<open>Some n\<close> says that the expression matches
  there and consumes \<open>n\<close> characters. The matchers are written with the combinators
  below, which try the alternatives of a quantifier in the order of a backtracking
  engine: a greedy quantifier takes the longest run first and gives characters back one
  at a time until the rest of the expression matches.
\<close>

type_synonym matcher = "string \<Rightarrow> string \<Rightarrow> nat option"

fun first_some :: "('a \<Rightarrow> 'b option) \<Rightarrow> 'a list \<Rightarrow> 'b option" where
  "first_some f [] = None"
| "first_some f (x # xs) = (case f x of Some y \<Rightarrow> Some y | None \<Rightarrow> first_some f xs)"

text \<open>\<open>p{lo,hi}\<close> followed by the continuation \<open>k\<close>.\<close>

definition rep_range ::
  "(char \<Rightarrow> bool) \<Rightarrow> nat \<Rightarrow> nat \<Rightarrow> string \<Rightarrow> (string \<Rightarrow> nat option) \<Rightarrow> nat option" where
  "rep_range p lo hi s k =
     first_some (\<lambda>n. map_option (\<lambda>e. n + e) (k (drop n s)))
       (rev [lo ..< Suc (min hi (length (takeWhile p s)))])"

text \<open>\<open>p*\<close> is \<open>rep p 0\<close>, \<open>p+\<close> is \<open>rep p 1\<close>.\<close>

definition rep ::
  "(char \<Rightarrow> bool) \<Rightarrow> nat \<Rightarrow> string \<Rightarrow> (string \<Rightarrow> nat option) \<Rightarrow> nat option" where
  "rep p lo s k = rep_range p lo (length s) s k"

text \<open>One character of the class \<open>p\<close>.\<close>

definition one :: "(char \<Rightarrow> bool) \<Rightarrow> string \<Rightarrow> (string \<Rightarrow> nat option) \<Rightarrow> nat option" where
  "one p s k = (case s of [] \<Rightarrow> None | c # cs \<Rightarrow> if p c then map_option Suc (k cs) else None)"

definition accept :: "string \<Rightarrow> nat option" where
  "accept r = Some 0"

text \<open>The lookahead \<open>(?=x)\<close>: \<open>x\<close> has to match, and consumes nothing.\<close>

definition lookahead :: "nat option \<Rightarrow> nat option" where
  "lookahead x = (case x of None \<Rightarrow> None | Some n \<Rightarrow> Some 0)"

text \<open>\<open>^\<close> and \<open>$\<close> under the flag \<open>m\<close>.\<close>

definition at_line_start :: "string \<Rightarrow> bool" where
  "at_line_start pre = (case pre of [] \<Rightarrow> True | b # bs \<Rightarrow> is_line_terminator b)"

definition eol :: "string \<Rightarrow> nat option" where
  "eol r = (case r of [] \<Rightarrow> Some 0 | c # cs \<Rightarrow> if is_line_terminator c then Some 0 else None)"

text \<open>\<open>$\<close> without the flag \<open>m\<close>.\<close>

definition eos :: "string \<Rightarrow> nat option" where
  "eos r = (if r = [] then Some 0 else None)"

text \<open>
  \<open>s.split(re)\<close> (\<open>RegExp.prototype[@@split]\<close>). The loop tries the expression at every
  position \<open>q\<close> from the end \<open>p\<close> of the last separator on; \<open>cur\<close> is the text between
  \<open>p\<close> and \<open>q\<close>, reversed. A match that ends at \<open>p\<close> (empty, with \<open>q = p\<close>) is
  skipped; the end of the subject is never tried. \<open>caps\<close> says that the whole expression
  is one capture group, whose text is then spliced into the result after each piece. The
  empty subject gives no piece when the expression matches it and the one piece \<open>""\<close>
  otherwise.
\<close>

function split_loop :: "matcher \<Rightarrow> bool \<Rightarrow> string \<Rightarrow> string \<Rightarrow> string \<Rightarrow> string list" where
  "split_loop m caps pre cur [] = [rev cur]"
| "split_loop m caps pre cur (c # cs) =
     (case m pre (c # cs) of
        None \<Rightarrow> split_loop m caps (c # pre) (c # cur) cs
      | Some n \<Rightarrow>
          if n = 0 \<and> cur = [] then split_loop m caps (c # pre) (c # cur) cs
          else rev cur # (if caps then [take n (c # cs)] else [])
                 @ split_loop m caps (rev (take n (c # cs)) @ pre) [] (drop n (c # cs)))"
  by pat_completeness auto
termination
  by (relation "measures [\<lambda>(m, caps, pre, cur, r). length r,
                          \<lambda>(m, caps, pre, cur, r). length cur]") auto

definition js_split :: "matcher \<Rightarrow> bool \<Rightarrow> string \<Rightarrow> string list" where
  "js_split m caps s =
     (if s = [] then (if m [] [] = None then [[]] else []) else split_loop m caps [] [] s)"

text \<open>
  \<open>s.match(re)\<close> with the flag \<open>g\<close>: the matches from left to right, each search
  starting where the last match ended (one further after an empty match). No match at
  all is \<open>null\<close>, here the empty list.
\<close>

function match_all :: "matcher \<Rightarrow> string \<Rightarrow> string \<Rightarrow> string list" where
  "match_all m pre [] = (case m pre [] of None \<Rightarrow> [] | Some n \<Rightarrow> [[]])"
| "match_all m pre (c # cs) =
     (case m pre (c # cs) of
        None \<Rightarrow> match_all m (c # pre) cs
      | Some n \<Rightarrow>
          if n = 0 then [] # match_all m (c # pre) cs
          else take n (c # cs) # match_all m (rev (take n (c # cs)) @ pre) (drop n (c # cs)))"
  by pat_completeness auto
termination
  by (relation "measure (\<lambda>(m, pre, r). length r)") auto

text \<open>\<open>re.test(s)\<close> from index 0: some position of the subject matches.\<close>

fun regex_test :: "matcher \<Rightarrow> string \<Rightarrow> string \<Rightarrow> bool" where
  "regex_test m pre [] = (m pre [] \<noteq> None)"
| "regex_test m pre (c # cs) = (m pre (c # cs) \<noteq> None \<or> regex_test m (c # pre) cs)"

text \<open>The number of matches of \<open>s.match(re)\<close> with the flag \<open>g\<close> (0 for \<open>null\<close>).\<close>

definition match_count :: "matcher \<Rightarrow> string \<Rightarrow> nat" where
  "match_count m s = length (match_all m [] s)"

subsection \<open>The expressions of the program\<close>

definition is_hash :: "char \<Rightarrow> bool" where
  "is_hash c = (c = CHR ''#'')"

definition is_punct :: "char \<Rightarrow> bool" where
  "is_punct c = (c = CHR ''.'' \<or> c = CHR ''!'' \<or> c = CHR ''?'')"

text \<open>\<open>/\r?\n/\<close>\<close>

definition re_newline :: matcher where
  "re_newline pre rest =
     rep_range (\<lambda>c. c = CR) 0 1 rest (\<lambda>r. one (\<lambda>c. c = LF) r accept)"

text \<open>\<open>/\n\s*\n/\<close>\<close>

definition re_blank_line :: matcher where
  "re_blank_line pre rest =
     one (\<lambda>c. c = LF) rest (\<lambda>r. rep is_space 0 r (\<lambda>r. one (\<lambda>c. c = LF) r accept))"

text \<open>\<open>/\s+/\<close>\<close>

definition re_spaces :: matcher where
  "re_spaces pre rest = rep is_space 1 rest accept"

text \<open>\<open>/[^.!?]+[.!?]+["']?|[^.!?]+$/g\<close>\<close>

definition re_sentence :: matcher where
  "re_sentence pre rest =
     (case rep (\<lambda>c. \<not> is_punct c) 1 rest
             (\<lambda>r. rep is_punct 1 r
               (\<lambda>r. rep_range (\<lambda>c. c = DQUOTE \<or> c = CHR 0x27) 0 1 r accept)) of
        Some n \<Rightarrow> Some n
      | None \<Rightarrow> rep (\<lambda>c. \<not> is_punct c) 1 rest eos)"

text \<open>\<open>/(?=^\s*#+\s)/gm\<close>\<close>

definition re_section :: matcher where
  "re_section pre rest =
     (if at_line_start pre
      then lookahead (rep is_space 0 rest (\<lambda>r. rep is_hash 1 r (\<lambda>r. one is_space r accept)))
      else None)"

text \<open>\<open>/(?=^#+\s)/gm\<close>\<close>

definition re_heading :: matcher where
  "re_heading pre rest =
     (if at_line_start pre
      then lookahead (rep is_hash 1 rest (\<lambda>r. one is_space r accept))
      else None)"

text \<open>\<open>/\n(?=[A-Z0-9][\w\s]*:)/g\<close>\<close>

definition re_speaker :: matcher where
  "re_speaker pre rest =
     one (\<lambda>c. c = LF) rest
       (\<lambda>r. lookahead
          (one (\<lambda>c. is_upper_ascii c \<or> is_digit c) r
            (\<lambda>r. rep (\<lambda>c. is_word_char c \<or> is_space c) 0 r
              (\<lambda>r. one (\<lambda>c. c = CHR '':'') r accept))))"

text \<open>\<open>new RegExp(`(^\\s*#{${level}}\\s+.+$)`, 'gm')\<close>\<close>

definition re_level_header :: "nat \<Rightarrow> matcher" where
  "re_level_header level pre rest =
     (if at_line_start pre
      then rep is_space 0 rest
             (\<lambda>r. rep_range is_hash level level r
               (\<lambda>r. rep is_space 1 r
                 (\<lambda>r. rep (\<lambda>c. \<not> is_line_terminator c) 1 r eol)))
      else None)"

text \<open>\<open>new RegExp(`^\\s*#{${level}}\\s`)\<close>: without the flag \<open>m\<close>, \<open>^\<close> is the start.\<close>

definition re_is_header :: "nat \<Rightarrow> matcher" where
  "re_is_header level pre rest =
     (if pre = []
      then rep is_space 0 rest
             (\<lambda>r. rep_range is_hash level level r (\<lambda>r. one is_space r accept))
      else None)"

text \<open>\<open>/^#{1,6}\s+.+$/m\<close>\<close>

definition re_markdown_header :: matcher where
  "re_markdown_header pre rest =
     (if at_line_start pre
      then rep_range is_hash 1 6 rest
             (\<lambda>r. rep is_space 1 r
               (\<lambda>r. rep (\<lambda>c. \<not> is_line_terminator c) 1 r eol))
      else None)"

text \<open>\<open>/[,;]\s+/\<close>\<close>

definition re_phrase :: matcher where
  "re_phrase pre rest =
     one (\<lambda>c. c = CHR '','' \<or> c = CHR '';'') rest (\<lambda>r. rep is_space 1 r accept)"

text \<open>\<open>/\n\n+/\<close>, \<open>/\n+/\<close>, \<open>/\n\n/g\<close> and \<open>/\n/g\<close>\<close>

definition re_nn_plus :: matcher where
  "re_nn_plus pre rest = one (\<lambda>c. c = LF) rest (\<lambda>r. rep (\<lambda>c. c = LF) 1 r accept)"

definition re_n_plus :: matcher where
  "re_n_plus pre rest = rep (\<lambda>c. c = LF) 1 rest accept"

definition re_nn :: matcher where
  "re_nn pre rest = one (\<lambda>c. c = LF) rest (\<lambda>r. one (\<lambda>c. c = LF) r accept)"

definition re_n :: matcher where
  "re_n pre rest = one (\<lambda>c. c = LF) rest accept"

section \<open>CSV parsing (utils/textProcessing.ts)\<close>

record CSVStructure =
  headers :: "string list"
  rows :: "string list list"
  totalRows :: nat

record CSVColumnConfig =
  analyzeCols :: "nat list"
  contextCols :: "nat list"

text \<open>
  \<open>.replace(/^"|"$/g, '')\<close>: a double quote at the start goes, and so does one at the
  end (of what is left: a string of one quote loses it once).
\<close>

definition strip_quotes :: "string \<Rightarrow> string" where
  "strip_quotes s =
     (let s1 = (case s of [] \<Rightarrow> [] | c # cs \<Rightarrow> if c = DQUOTE then cs else s)
      in if s1 \<noteq> [] \<and> last s1 = DQUOTE then butlast s1 else s1)"

text \<open>\<open>.replace(/""/g, '"')\<close>\<close>

fun collapse_quotes :: "string \<Rightarrow> string" where
  "collapse_quotes (c # d # cs) =
     (if c = DQUOTE \<and> d = DQUOTE then DQUOTE # collapse_quotes cs
      else c # collapse_quotes (d # cs))"
| "collapse_quotes cs = cs"

definition clean_field :: "string \<Rightarrow> string" where
  "clean_field current = collapse_quotes (strip_quotes (trim current))"

text \<open>
  The loop of \<open>splitCSVLine\<close>; \<open>prev\<close> is \<open>line[i-1]\<close>, absent at \<open>i = 0\<close>.
\<close>

fun splitCSVLine_loop ::
  "char option \<Rightarrow> bool \<Rightarrow> string \<Rightarrow> string list \<Rightarrow> string \<Rightarrow> string list" where
  "splitCSVLine_loop prev inQuote current matches [] = matches @ [clean_field current]"
| "splitCSVLine_loop prev inQuote current matches (char # line) =
     (let inQuote' = (if char = DQUOTE \<and> prev \<noteq> Some BACKSLASH then \<not> inQuote else inQuote)
      in if char = CHR '','' \<and> \<not> inQuote'
         then splitCSVLine_loop (Some char) inQuote' [] (matches @ [clean_field current]) line
         else splitCSVLine_loop (Some char) inQuote' (current @ [char]) matches line)"

definition splitCSVLine :: "string \<Rightarrow> string list" where
  "splitCSVLine line = splitCSVLine_loop None False [] [] line"

text \<open>The lines of \<open>parseCSVStructure\<close>: \<open>content.split(/\r?\n/).filter(l => l.trim())\<close>.\<close>

definition csv_lines :: "string \<Rightarrow> string list" where
  "csv_lines content = filter (\<lambda>l. trim l \<noteq> []) (js_split re_newline False content)"

definition parseCSVStructure :: "string \<Rightarrow> CSVStructure" where
  "parseCSVStructure content =
     (let lines = csv_lines content
      in if length lines < 2 then \<lparr> headers = [], rows = [], totalRows = 0 \<rparr>
         else (let hs = splitCSVLine (hd lines);
                   rs = map splitCSVLine (tl lines)
               in \<lparr> headers = hs, rows = rs, totalRows = length rs \<rparr>))"

subsection \<open>Column roles\<close>

text \<open>
  \<open>isNaN(Number(s))\<close>: \<open>Number\<close> of a string is not \<open>NaN\<close> exactly when the string,
  without the white space around it, is empty, a decimal literal (an optional sign, then
  \<open>Infinity\<close> or digits with an optional fraction and exponent), or a hexadecimal,
  octal or binary integer literal.
\<close>

definition all_digits :: "string \<Rightarrow> bool" where
  "all_digits s = (s \<noteq> [] \<and> list_all is_digit s)"

definition is_exponent :: "string \<Rightarrow> bool" where
  "is_exponent s =
     (case s of
        [] \<Rightarrow> False
      | e # r \<Rightarrow> (e = CHR ''e'' \<or> e = CHR ''E'')
                 \<and> (case r of
                       [] \<Rightarrow> False
                     | g # r' \<Rightarrow> if g = CHR ''+'' \<or> g = CHR ''-'' then all_digits r'
                                else all_digits r))"

definition is_unsigned_decimal :: "string \<Rightarrow> bool" where
  "is_unsigned_decimal s =
     (s = ''Infinity'' \<or>
      (let ip = takeWhile is_digit s;
           r1 = dropWhile is_digit s;
           fp = (case r1 of [] \<Rightarrow> [] | d # r \<Rightarrow> if d = CHR ''.'' then takeWhile is_digit r else []);
           r2 = (case r1 of [] \<Rightarrow> [] | d # r \<Rightarrow> if d = CHR ''.'' then dropWhile is_digit r else r1)
       in \<not> (ip = [] \<and> fp = []) \<and> (r2 = [] \<or> is_exponent r2)))"

definition is_radix_literal :: "string \<Rightarrow> bool" where
  "is_radix_literal s =
     (case s of
        z # x # ds \<Rightarrow>
          z = CHR ''0'' \<and> ds \<noteq> [] \<and>
          (if x = CHR ''x'' \<or> x = CHR ''X''
             then list_all (\<lambda>c. is_digit c \<or> c \<in> set ''abcdefABCDEF'') ds
           else if x = CHR ''o'' \<or> x = CHR ''O'' then list_all (\<lambda>c. c \<in> set ''01234567'') ds
           else if x = CHR ''b'' \<or> x = CHR ''B'' then list_all (\<lambda>c. c \<in> set ''01'') ds
           else False)
      | _ \<Rightarrow> False)"

definition isNaN_Number :: "string \<Rightarrow> bool" where
  "isNaN_Number s =
     (let t = trim s
      in \<not> (t = [] \<or> is_radix_literal t \<or>
            is_unsigned_decimal
              (case t of [] \<Rightarrow> [] | g # r \<Rightarrow> if g = CHR ''+'' \<or> g = CHR ''-'' then r else t)))"

text \<open>
  The inner \<open>sample.forEach\<close> for column \<open>i\<close>, on the counters
  \<open>(nonNumeric, totalLen, validCount)\<close>. A cell is counted when it is there and not
  empty.
\<close>

definition sample_row :: "nat \<Rightarrow> string list \<Rightarrow> nat \<times> nat \<times> nat \<Rightarrow> nat \<times> nat \<times> nat" where
  "sample_row i row acc =
     (case acc of (nonNumeric, totalLen, validCount) \<Rightarrow>
        if i < length row \<and> row ! i \<noteq> []
        then (if isNaN_Number (row ! i) then nonNumeric + 1 else nonNumeric,
              totalLen + length (row ! i), validCount + 1)
        else acc)"

text \<open>
  The body of \<open>headers.forEach((h, i) => ...)\<close> on the two index lists. The quotients
  are the exact ones: the counters are small integers, on which the comparisons of the
  double-precision quotients with \<open>0.6\<close>, \<open>0.1\<close>, \<open>20\<close> and \<open>30\<close> give the same
  answers.
\<close>

definition guess_column ::
  "string list list \<Rightarrow> string \<times> nat \<Rightarrow> nat list \<times> nat list \<Rightarrow> nat list \<times> nat list" where
  "guess_column rs hi cols =
     (case hi of (h, i) \<Rightarrow> case cols of (analyze, context) \<Rightarrow>
        (case fold (sample_row i) (take 30 rs) (0, 0, 0) of
           (nonNumeric, totalLen, validCount) \<Rightarrow>
             if validCount > 0 then
               (let avgLen = (of_nat totalLen :: rat) / of_nat validCount;
                    nonNumRatio = (of_nat nonNumeric :: rat) / of_nat validCount;
                    name = toLowerCase h;
                    isExplicitText =
                      (includes_str name ''text'' \<or> includes_str name ''comment'' \<or>
                       includes_str name ''desc'' \<or> includes_str name ''content'' \<or>
                       includes_str name ''feedback'' \<or> includes_str name ''improve'' \<or>
                       includes_str name ''work'' \<or> includes_str name ''response'' \<or>
                       includes_str name ''valuable'');
                    isLongText = (nonNumRatio > 6 / 10 \<and> avgLen > 30);
                    isId = (includes_str name ''id'' \<or> includes_str name ''code'' \<or> name = ''no'');
                    isCategory = (avgLen < 20 \<and> nonNumRatio > 1 / 10 \<and> \<not> isExplicitText);
                    isMetric = (nonNumRatio < 1 / 10)
                in if isExplicitText \<or> isLongText then (analyze @ [i], context)
                   else if isCategory \<or> isId \<or> isMetric then (analyze, context @ [i])
                   else (analyze, context))
             else (analyze, context)))"

definition guess_columns :: "CSVStructure \<Rightarrow> nat list \<times> nat list" where
  "guess_columns structure =
     fold (guess_column (rows structure))
       (zip (headers structure) [0 ..< length (headers structure)]) ([], [])"

definition guessCSVConfig :: "CSVStructure \<Rightarrow> CSVColumnConfig" where
  "guessCSVConfig structure =
     (case guess_columns structure of (analyze, context) \<Rightarrow>
        \<lparr> analyzeCols =
            (if length analyze = 0 \<and> length (headers structure) > 0
             then analyze @ [length (headers structure) - 1] else analyze),
          contextCols = context \<rparr>)"

section \<open>Ingestion (services/step1_ingest.ts)\<close>

text \<open>Of a \<open>File\<close>: its name, its media type and the text it resolves to.\<close>

record File =
  file_name :: string
  file_type :: string
  file_text :: string

text \<open>The content heuristic of \<open>ingestFile\<close> for a file whose extension decides nothing.\<close>

definition sniff_type :: "string \<Rightarrow> DocType" where
  "sniff_type text =
     (let csvAttempt = parseCSVStructure text;
          colCount = length (headers csvAttempt);
          type1 = (if colCount \<ge> 2 \<and> length (rows csvAttempt) > 0
                   then (let sampleRows = take 5 (rows csvAttempt);
                             consistentRows = list_all (\<lambda>r. length r = colCount) sampleRows
                         in if consistentRows \<and> totalRows csvAttempt > 0 then T_csv else T_text)
                   else T_text)
      in if type1 \<noteq> T_csv
         then (if regex_test re_markdown_header [] text then T_markdown else type1)
         else type1)"

definition ingestFile :: "idsource \<Rightarrow> File \<Rightarrow> nat \<Rightarrow> SourceDocument \<times> nat" where
  "ingestFile rnd file n =
     (let text = file_text file;
          extension = toLowerCase (last (split_on (CHR ''.'') (file_name file)));
          type = (if extension = ''csv'' \<or> file_type file = ''text/csv'' then T_csv
                  else if extension = ''md'' \<or> extension = ''markdown'' then T_markdown
                  else sniff_type text);
          csvHeaders = (if type = T_csv then headers (parseCSVStructure text) else [])
      in case generateId rnd n of (i, n') \<Rightarrow>
           (\<lparr> doc_id = i, doc_name = file_name file, doc_content = text, doc_type = type,
              doc_csvHeaders = (if length csvHeaders > 0 then Some csvHeaders else None) \<rparr>, n'))"

definition ingestManualText :: "idsource \<Rightarrow> string \<Rightarrow> nat \<Rightarrow> SourceDocument \<times> nat" where
  "ingestManualText rnd text n =
     (let type0 = (if regex_test re_markdown_header [] text then T_markdown else T_text);
          csvAttempt = parseCSVStructure text;
          type = (if length (headers csvAttempt) \<ge> 2 \<and> length (rows csvAttempt) > 0
                  then (if list_all (\<lambda>r. length r = length (headers csvAttempt))
                             (take 5 (rows csvAttempt))
                        then T_csv else type0)
                  else type0)
      in case generateId rnd n of (i, n') \<Rightarrow>
           (\<lparr> doc_id = i, doc_name = ''Manual Input'', doc_content = text, doc_type = type,
              doc_csvHeaders = (if type = T_csv then Some (headers (parseCSVStructure text))
                                else None) \<rparr>, n'))"

section \<open>Sample data\<close>

text \<open>A run of identifiers for the examples: the draws are pairwise different.\<close>

definition example_ids :: idsource where
  "example_ids n = ''id'' @ replicate n (CHR ''x'')"

section \<open>N-grams (utils/textProcessing.ts)\<close>

definition STOP_WORDS :: "string list" where
  "STOP_WORDS =
     [''the'', ''and'', ''or'', ''but'', ''in'', ''on'', ''at'', ''to'', ''a'', ''an'', ''is'',
      ''are'', ''was'', ''were'', ''of'', ''for'', ''it'', ''this'', ''that'', ''with'', ''as'',
      ''by'', ''from'', ''be'', ''have'', ''has'', ''had'', ''not'', ''are'', ''will'', ''can'',
      ''would'', ''should'', ''could'', ''i'', ''you'', ''he'', ''she'', ''we'', ''they'']"

definition is_stop_word :: "string \<Rightarrow> bool" where
  "is_stop_word t = (t \<in> set STOP_WORDS)"

text \<open>
  \<open>chunk.text.toLowerCase().replace(/[^\w\s]/g, '').split(/\s+/).filter(t => t.length > 0)\<close>
\<close>

definition tokenize :: "string \<Rightarrow> string list" where
  "tokenize text =
     filter (\<lambda>t. length t > 0)
       (js_split re_spaces False
          (filter (\<lambda>c. is_word_char c \<or> is_space c) (toLowerCase text)))"

text \<open>
  A \<open>Map\<close> from strings to counts keeps its keys in the order of their first insertion:
  an association list. \<open>map.set(k, (map.get(k) || 0) + 1)\<close> is \<open>bump\<close>.
\<close>

type_synonym counts = "(string \<times> nat) list"

fun bump :: "counts \<Rightarrow> string \<Rightarrow> counts" where
  "bump [] k = [(k, 1)]"
| "bump ((k', v) # m) k = (if k' = k then (k', v + 1) # m else (k', v) # bump m k)"

text \<open>The two \<open>for\<close> loops over the positions of the token list.\<close>

fun bigram_loop :: "string list \<Rightarrow> counts \<Rightarrow> counts" where
  "bigram_loop (a # b # ts) m =
     bigram_loop (b # ts)
       (if \<not> is_stop_word a \<and> \<not> is_stop_word b then bump m (a @ '' '' @ b) else m)"
| "bigram_loop ts m = m"

fun trigram_loop :: "string list \<Rightarrow> counts \<Rightarrow> counts" where
  "trigram_loop (a # b # c # ts) m =
     trigram_loop (b # c # ts)
       (if \<not> is_stop_word a \<and> \<not> is_stop_word b \<and> \<not> is_stop_word c
        then bump m (a @ '' '' @ b @ '' '' @ c) else m)"
| "trigram_loop ts m = m"

datatype NgramType = bigram | trigram

record Ngram =
  ngram_text :: string
  ngram_value :: nat
  ngram_type :: NgramType

text \<open>
  \<open>format\<close>: the entries in insertion order, sorted by descending count (the sort of
  arrays is stable, as \<open>sort_key\<close> is), cut to the first 50.
\<close>

definition format :: "counts \<Rightarrow> NgramType \<Rightarrow> Ngram list" where
  "format m ty =
     take 50
       (sort_key (\<lambda>e. - int (ngram_value e))
          (map (\<lambda>(t, v). \<lparr> ngram_text = t, ngram_value = v, ngram_type = ty \<rparr>) m))"

definition count_chunk :: "Chunk \<Rightarrow> counts \<times> counts \<Rightarrow> counts \<times> counts" where
  "count_chunk chunk maps =
     (case maps of (bigramCounts, trigramCounts) \<Rightarrow>
        (let tokens = tokenize (chunk_text chunk)
         in (bigram_loop tokens bigramCounts, trigram_loop tokens trigramCounts)))"

record Ngrams =
  bigrams :: "Ngram list"
  trigrams :: "Ngram list"

definition generateNgrams :: "Chunk list \<Rightarrow> Ngrams" where
  "generateNgrams chunks =
     (case fold count_chunk chunks ([], []) of (bigramCounts, trigramCounts) \<Rightarrow>
        \<lparr> bigrams = format bigramCounts bigram, trigrams = format trigramCounts trigram \<rparr>)"

text \<open>
  The token positions of an n-gram: the words between its single spaces. An n-gram is
  free of stop words when it has the right number of words and none is a stop word.
\<close>

definition ngram_words :: "string \<Rightarrow> string list" where
  "ngram_words t = split_on (CHR '' '') t"

definition stop_free :: "nat \<Rightarrow> string \<Rightarrow> bool" where
  "stop_free k t =
     (length (ngram_words t) = k \<and> list_all (\<lambda>w. \<not> is_stop_word w) (ngram_words t))"

section \<open>Segmentation (services/step2_segment.ts)\<close>

definition nonblank :: "string \<Rightarrow> bool" where
  "nonblank t = (trim t \<noteq> [])"

definition splitRawText :: "string \<Rightarrow> Granularity \<Rightarrow> string list" where
  "splitRawText text strategy =
     (case strategy of
        PARAGRAPH \<Rightarrow> filter nonblank (js_split re_blank_line False text)
      | SENTENCE \<Rightarrow> (case match_all re_sentence [] text of [] \<Rightarrow> [text] | m # ms \<Rightarrow> m # ms)
      | LINE \<Rightarrow> filter nonblank (split_on LF text)
      | SECTION \<Rightarrow> filter nonblank (js_split re_section False text)
      | TURN \<Rightarrow> filter nonblank (js_split re_speaker False text)
      | _ \<Rightarrow> [text])"

text \<open>The granularities whose split in \<open>splitRawText\<close> filters the blank pieces out.\<close>

definition drops_blank :: "Granularity \<Rightarrow> bool" where
  "drops_blank strategy = (strategy \<in> {PARAGRAPH, LINE, SECTION, TURN})"

text \<open>\<open>docChunks.push({ id: generateId(), text, type, sourceId: doc.id, sourceName, tags: [] })\<close>\<close>

definition push_chunk ::
  "idsource \<Rightarrow> Granularity \<Rightarrow> SourceDocument \<Rightarrow> string \<times> string \<Rightarrow> Chunk list \<times> nat
     \<Rightarrow> Chunk list \<times> nat" where
  "push_chunk rnd ty doc body st =
     (case body of (text, sourceName) \<Rightarrow> case st of (docChunks, n) \<Rightarrow>
        case generateId rnd n of (i, n') \<Rightarrow>
          (docChunks @ [\<lparr> chunk_id = i, chunk_text = text, chunk_type = ty,
                          chunk_sourceId = Some (doc_id doc), chunk_sourceName = Some sourceName,
                          chunk_tags = [] \<rparr>], n'))"

subsection \<open>Tabular documents\<close>

text \<open>\<open>headers.indexOf(c)\<close>, \<open>None\<close> for \<open>-1\<close>.\<close>

fun index_of :: "string list \<Rightarrow> string \<Rightarrow> nat option" where
  "index_of [] c = None"
| "index_of (h # hs) c = (if h = c then Some 0 else map_option Suc (index_of hs c))"

text \<open>\<open>row[idx] ? row[idx].replace(/^"|"$/g, '').trim() : ''\<close> for \<open>idx = headers.indexOf(c)\<close>\<close>

definition cell :: "string list \<Rightarrow> string list \<Rightarrow> string \<Rightarrow> string" where
  "cell hs row c =
     (case index_of hs c of
        None \<Rightarrow> []
      | Some idx \<Rightarrow> if idx < length row \<and> row ! idx \<noteq> [] then trim (strip_quotes (row ! idx))
                    else [])"

definition contextStr_of :: "string list \<Rightarrow> string list \<Rightarrow> string list \<Rightarrow> string list \<Rightarrow> string" where
  "contextStr_of hs contextCols' sentimentCols row =
     join '' | ''
       (filter (\<lambda>s. s \<noteq> [])
          (map (\<lambda>c. let val = cell hs row c
                    in if c \<in> set sentimentCols
                       then (if val \<noteq> [] then ''[Sentiment Context] '' @ c @ '': '' @ val else [])
                       else (if val \<noteq> [] then c @ '': '' @ val else []))
             contextCols'))"

definition meta_prefix :: "string \<Rightarrow> string" where
  "meta_prefix contextStr = (if contextStr \<noteq> [] then ''[Meta: '' @ contextStr @ '']'' @ [LF] else [])"

definition mainStr_of :: "string list \<Rightarrow> string list \<Rightarrow> string list \<Rightarrow> string" where
  "mainStr_of hs targetCols row =
     join [LF]
       (filter (\<lambda>s. s \<noteq> [])
          (map (\<lambda>c. let val = cell hs row c
                    in if val \<noteq> [] then (if length targetCols > 1 then c @ '': '' @ val else val)
                       else [])
             targetCols))"

text \<open>The body of \<open>targetCols.forEach\<close> of the distinct-column strategy.\<close>

definition distinct_step ::
  "idsource \<Rightarrow> Granularity \<Rightarrow> SourceDocument \<Rightarrow> string list \<Rightarrow> string \<Rightarrow> string list \<Rightarrow> string
     \<Rightarrow> Chunk list \<times> nat \<Rightarrow> Chunk list \<times> nat" where
  "distinct_step rnd strategy doc hs contextStr row colName st =
     (let val = cell hs row colName
      in if index_of hs colName \<noteq> None \<and> val \<noteq> []
         then push_chunk rnd strategy doc
                (meta_prefix contextStr @ ''[Column: '' @ colName @ '']'' @ [LF] @ val,
                 doc_name doc @ '' > '' @ colName) st
         else st)"

text \<open>The body of \<open>structure.rows.forEach\<close>.\<close>

definition row_step ::
  "idsource \<Rightarrow> Granularity \<Rightarrow> bool \<Rightarrow> SourceDocument \<Rightarrow> string list \<Rightarrow> string list
     \<Rightarrow> string list \<Rightarrow> string list \<Rightarrow> string list \<Rightarrow> Chunk list \<times> nat \<Rightarrow> Chunk list \<times> nat" where
  "row_step rnd strategy isHierarchical doc hs targetCols contextCols' sentimentCols row st =
     (let contextStr = contextStr_of hs contextCols' sentimentCols row
      in if \<not> isHierarchical
         then (let mainStr = mainStr_of hs targetCols row
               in if trim mainStr \<noteq> []
                  then push_chunk rnd strategy doc (meta_prefix contextStr @ mainStr, doc_name doc) st
                  else st)
         else fold (distinct_step rnd strategy doc hs contextStr row) targetCols st)"

text \<open>
  The configuration may be missing (\<open>csvConfig?.targetColumns || headers\<close>), and so may
  its \<open>sentimentContextColumns\<close>.
\<close>

definition segment_csv ::
  "idsource \<Rightarrow> SourceDocument \<Rightarrow> Granularity \<Rightarrow> CsvSegmentationConfig option \<Rightarrow> bool \<Rightarrow> nat
     \<Rightarrow> Chunk list \<times> nat" where
  "segment_csv rnd doc strategy csvConfig isHierarchical n =
     (let structure = parseCSVStructure (doc_content doc);
          hs = headers structure;
          targetCols = (case csvConfig of None \<Rightarrow> hs | Some c \<Rightarrow> targetColumns c);
          contextCols' = (case csvConfig of None \<Rightarrow> [] | Some c \<Rightarrow> contextColumns c);
          sentimentCols = (case csvConfig of None \<Rightarrow> []
                           | Some c \<Rightarrow> (case sentimentContextColumns c of None \<Rightarrow> [] | Some s \<Rightarrow> s))
      in fold (row_step rnd strategy isHierarchical doc hs targetCols contextCols' sentimentCols)
           (rows structure) ([], n))"

subsection \<open>Text and Markdown with hierarchy\<close>

text \<open>\<open>section.trim().replace(/^[#\s]+/, '').trim()\<close>\<close>

definition header_title :: "string \<Rightarrow> string" where
  "header_title section = trim (dropWhile (\<lambda>c. is_hash c \<or> is_space c) (trim section))"

text \<open>
  The body of \<open>sections.forEach\<close>, on \<open>currentHeader\<close> and the chunks pushed so far.
\<close>

definition section_step ::
  "idsource \<Rightarrow> Granularity \<Rightarrow> nat \<Rightarrow> SourceDocument \<Rightarrow> string
     \<Rightarrow> string \<times> Chunk list \<times> nat \<Rightarrow> string \<times> Chunk list \<times> nat" where
  "section_step rnd strategy effectiveLevel doc section st =
     (case st of (currentHeader, chunks) \<Rightarrow>
        if trim section = [] then st
        else if regex_test (re_is_header effectiveLevel) [] section
          then (header_title section, chunks)
        else if strategy = SUBSECTION
          then (if trim section \<noteq> []
                then (currentHeader,
                      push_chunk rnd strategy doc
                        (trim section, doc_name doc @ '' > '' @ currentHeader) chunks)
                else st)
        else (currentHeader,
              fold (\<lambda>segment. push_chunk rnd strategy doc
                                (segment, doc_name doc @ '' > '' @ currentHeader))
                (splitRawText section strategy) chunks))"

definition segment_hierarchical ::
  "idsource \<Rightarrow> SourceDocument \<Rightarrow> Granularity \<Rightarrow> nat \<Rightarrow> nat \<Rightarrow> Chunk list \<times> nat" where
  "segment_hierarchical rnd doc strategy splitLevel n =
     (let effectiveLevel = (if strategy = SUBSECTION then min 6 (splitLevel + 1) else splitLevel);
          sections = js_split (re_level_header effectiveLevel) True (doc_content doc)
      in snd (fold (section_step rnd strategy effectiveLevel doc) sections
                (''Intro / Untitled'', [], n)))"

subsection \<open>Flat text\<close>

text \<open>\<open>texts.map(t => ({ id: generateId(), ... }))\<close>: one draw per element, in order.\<close>

fun map_with_id :: "idsource \<Rightarrow> (string \<Rightarrow> string \<Rightarrow> Chunk) \<Rightarrow> string list \<Rightarrow> nat \<Rightarrow> Chunk list \<times> nat" where
  "map_with_id rnd mk [] n = ([], n)"
| "map_with_id rnd mk (t # ts) n =
     (case generateId rnd n of (i, n1) \<Rightarrow>
        case map_with_id rnd mk ts n1 of (cs, n2) \<Rightarrow> (mk i t # cs, n2))"

definition segment_flat :: "idsource \<Rightarrow> SourceDocument \<Rightarrow> Granularity \<Rightarrow> nat \<Rightarrow> Chunk list \<times> nat" where
  "segment_flat rnd doc strategy n =
     map_with_id rnd
       (\<lambda>i text. \<lparr> chunk_id = i, chunk_text = trim text, chunk_type = strategy,
                   chunk_sourceId = Some (doc_id doc), chunk_sourceName = Some (doc_name doc),
                   chunk_tags = [] \<rparr>)
       (splitRawText (doc_content doc) strategy) n"

subsection \<open>The dispatch\<close>

definition segment_doc ::
  "idsource \<Rightarrow> Granularity \<Rightarrow> CsvSegmentationConfig option \<Rightarrow> bool \<Rightarrow> nat \<Rightarrow> SourceDocument
     \<Rightarrow> nat \<Rightarrow> Chunk list \<times> nat" where
  "segment_doc rnd strategy csvConfig isHierarchical splitLevel doc n =
     (if strategy = FILE
        then push_chunk rnd strategy doc (doc_content doc, doc_name doc) ([], n)
      else if doc_type doc = T_csv
        then segment_csv rnd doc strategy csvConfig isHierarchical n
      else if isHierarchical
        then segment_hierarchical rnd doc strategy splitLevel n
      else segment_flat rnd doc strategy n)"

text \<open>The body of \<open>docs.forEach\<close>: \<open>chunks = [...chunks, ...docChunks]\<close>.\<close>

definition doc_step ::
  "idsource \<Rightarrow> Granularity \<Rightarrow> CsvSegmentationConfig option \<Rightarrow> bool \<Rightarrow> nat \<Rightarrow> SourceDocument
     \<Rightarrow> Chunk list \<times> nat \<Rightarrow> Chunk list \<times> nat" where
  "doc_step rnd strategy csvConfig isHierarchical splitLevel doc st =
     (case st of (chunks, n) \<Rightarrow>
        case segment_doc rnd strategy csvConfig isHierarchical splitLevel doc n of
          (docChunks, n') \<Rightarrow> (chunks @ docChunks, n'))"

text \<open>
  \<open>performSegmentation\<close>, with the identifier source and the number of draws made before
  the call; it returns the chunks and the number of draws after it.
\<close>

definition performSegmentation ::
  "idsource \<Rightarrow> SourceDocument list \<Rightarrow> Granularity \<Rightarrow> CsvSegmentationConfig option \<Rightarrow> bool \<Rightarrow> nat
     \<Rightarrow> nat \<Rightarrow> Chunk list \<times> nat" where
  "performSegmentation rnd docs strategy csvConfig isHierarchical splitLevel n =
     fold (doc_step rnd strategy csvConfig isHierarchical splitLevel) docs ([], n)"

section \<open>The splitter of utils/textProcessing.ts\<close>

definition CSV_ROW_DELIMITER :: string where
  "CSV_ROW_DELIMITER = ''<<<ROW_BREAK>>>''"

text \<open>
  \<open>s.replace(new RegExp(d, 'g'), r)\<close> and \<open>s.split(d)\<close> for a non-empty string \<open>d\<close>
  without special characters: the occurrences of \<open>d\<close> from left to right, without
  overlap. \<open>skip\<close> counts the characters of a found occurrence that are still to be
  passed.
\<close>

fun replace_go :: "string \<Rightarrow> string \<Rightarrow> nat \<Rightarrow> string \<Rightarrow> string" where
  "replace_go d r skip [] = []"
| "replace_go d r skip (c # cs) =
     (if skip > 0 then replace_go d r (skip - 1) cs
      else if take (length d) (c # cs) = d then r @ replace_go d r (length d - 1) cs
      else c # replace_go d r 0 cs)"

definition replace_all :: "string \<Rightarrow> string \<Rightarrow> string \<Rightarrow> string" where
  "replace_all d r s = replace_go d r 0 s"

fun split_str_go :: "string \<Rightarrow> nat \<Rightarrow> string \<Rightarrow> string \<Rightarrow> string list" where
  "split_str_go d skip cur [] = [rev cur]"
| "split_str_go d skip cur (c # cs) =
     (if skip > 0 then split_str_go d (skip - 1) cur cs
      else if take (length d) (c # cs) = d then rev cur # split_str_go d (length d - 1) [] cs
      else split_str_go d 0 (c # cur) cs)"

definition split_str :: "string \<Rightarrow> string \<Rightarrow> string list" where
  "split_str d s = split_str_go d 0 [] s"

text \<open>A chunk of \<open>splitSingleText\<close>: no source yet.\<close>

definition plain_chunk :: "Granularity \<Rightarrow> string \<Rightarrow> string \<Rightarrow> Chunk" where
  "plain_chunk ty i t =
     \<lparr> chunk_id = i, chunk_text = t, chunk_type = ty, chunk_sourceId = None,
       chunk_sourceName = None, chunk_tags = [] \<rparr>"

text \<open>
  \<open>splitSingleText\<close>, one equation for each branch of its chain of comparisons with
  the granularity. Under \<open>TURN\<close> it calls itself with \<open>PARAGRAPH\<close> when the text
  has no line break followed by a speaker pattern and no colon at all. The quotient of
  the two newline counts is compared exactly: on natural numbers \<open>d > s * 0.1\<close> in
  double precision holds exactly when \<open>d > s / 10\<close>.
\<close>

function (sequential) splitSingleText ::
  "idsource \<Rightarrow> string \<Rightarrow> Granularity \<Rightarrow> nat \<Rightarrow> Chunk list \<times> nat" where
  "splitSingleText rnd text WHOLE n =
     map_with_id rnd (plain_chunk WHOLE) [replace_all CSV_ROW_DELIMITER [LF, LF] text] n"
| "splitSingleText rnd text RESPONSE n =
     (if includes_str text CSV_ROW_DELIMITER
      then map_with_id rnd (plain_chunk RESPONSE)
             (filter (\<lambda>t. t \<noteq> []) (map trim (split_str CSV_ROW_DELIMITER text))) n
      else (let doubleNewlineCount = match_count re_nn text;
                singleNewlineCount = match_count re_n text;
                splitPattern =
                  (if doubleNewlineCount > 1
                      \<and> (of_nat doubleNewlineCount :: rat) > of_nat singleNewlineCount * (1 / 10)
                   then re_nn_plus else re_n_plus)
            in map_with_id rnd (plain_chunk RESPONSE)
                 (filter (\<lambda>t. t \<noteq> []) (map trim (js_split splitPattern False text))) n))"
| "splitSingleText rnd text TURN n =
     (if \<not> regex_test re_speaker [] text \<and> \<not> includes_str text '':''
      then splitSingleText rnd text PARAGRAPH n
      else map_with_id rnd (\<lambda>i t. plain_chunk TURN i (trim t))
             (filter (\<lambda>t. length (trim t) > 0) (js_split re_speaker False text)) n)"
| "splitSingleText rnd text HEADING n =
     map_with_id rnd (\<lambda>i s. plain_chunk HEADING i (trim s))
       (filter (\<lambda>s. length (trim s) > 0) (js_split re_heading False text)) n"
| "splitSingleText rnd text PARAGRAPH n =
     (let cleanText = replace_all CSV_ROW_DELIMITER [LF, LF] text
      in map_with_id rnd (\<lambda>i p. plain_chunk PARAGRAPH i (trim p))
           (filter (\<lambda>p. length (trim p) > 0) (js_split re_blank_line False cleanText)) n)"
| "splitSingleText rnd text SENTENCE n =
     (let cleanText = replace_all CSV_ROW_DELIMITER '' '' text;
          rawSentences = (case match_all re_sentence [] cleanText of
                            [] \<Rightarrow> [cleanText] | m # ms \<Rightarrow> m # ms)
      in map_with_id rnd (\<lambda>i s. plain_chunk SENTENCE i (trim s))
           (filter (\<lambda>s. length (trim s) > 0) rawSentences) n)"
| "splitSingleText rnd text PHRASE n =
     (let cleanText = replace_all CSV_ROW_DELIMITER '' '' text
      in map_with_id rnd (\<lambda>i p. plain_chunk PHRASE i (trim p))
           (filter (\<lambda>p. length (trim p) > 0) (js_split re_phrase False cleanText)) n)"
| "splitSingleText rnd text granularity n = ([], n)"
  by pat_completeness auto
termination
  by (relation "measure (\<lambda>(rnd, text, granularity, n). if granularity = TURN then 1 else 0)") auto

text \<open>The body of \<open>documents.forEach\<close> in \<open>splitDocuments\<close>.\<close>

definition splitDocuments_step ::
  "idsource \<Rightarrow> Granularity \<Rightarrow> SourceDocument \<Rightarrow> Chunk list \<times> nat \<Rightarrow> Chunk list \<times> nat" where
  "splitDocuments_step rnd granularity doc st =
     (case st of (allChunks, n) \<Rightarrow>
        case splitSingleText rnd (doc_content doc) granularity n of (cs, n') \<Rightarrow>
          (allChunks @ map (\<lambda>c. c\<lparr> chunk_sourceId := Some (doc_id doc),
                                     chunk_sourceName := Some (doc_name doc) \<rparr>) cs, n'))"

definition splitDocuments ::
  "idsource \<Rightarrow> SourceDocument list \<Rightarrow> Granularity \<Rightarrow> nat \<Rightarrow> Chunk list \<times> nat" where
  "splitDocuments rnd documents granularity n =
     fold (splitDocuments_step rnd granularity) documents ([], n)"

section \<open>The chunk sequence, stated directly\<close>

text \<open>
  The ordering guarantee of the specification: the chunks follow the order of the source
  documents, inside a document the order of its rows or sections, and inside a row or
  section the order of the columns or split pieces. The definitions below build the
  sequence of \<open>(text, label)\<close> pairs of a document in exactly that way, as nested
  concatenations in source order, without the mutable accumulators of the program; the
  program is compared with them.
\<close>

definition distinct_bodies ::
  "SourceDocument \<Rightarrow> string list \<Rightarrow> string \<Rightarrow> string list \<Rightarrow> string \<Rightarrow> (string \<times> string) list" where
  "distinct_bodies doc hs contextStr row colName =
     (if index_of hs colName \<noteq> None \<and> cell hs row colName \<noteq> []
      then [(meta_prefix contextStr @ ''[Column: '' @ colName @ '']'' @ [LF] @ cell hs row colName,
             doc_name doc @ '' > '' @ colName)]
      else [])"

definition row_bodies ::
  "bool \<Rightarrow> SourceDocument \<Rightarrow> string list \<Rightarrow> string list \<Rightarrow> string list \<Rightarrow> string list
     \<Rightarrow> string list \<Rightarrow> (string \<times> string) list" where
  "row_bodies isHierarchical doc hs targetCols contextCols' sentimentCols row =
     (if \<not> isHierarchical
      then (if trim (mainStr_of hs targetCols row) \<noteq> []
            then [(meta_prefix (contextStr_of hs contextCols' sentimentCols row)
                     @ mainStr_of hs targetCols row, doc_name doc)]
            else [])
      else concat (map (distinct_bodies doc hs (contextStr_of hs contextCols' sentimentCols row) row)
                     targetCols))"

definition csv_bodies ::
  "SourceDocument \<Rightarrow> CsvSegmentationConfig option \<Rightarrow> bool \<Rightarrow> (string \<times> string) list" where
  "csv_bodies doc csvConfig isHierarchical =
     (let structure = parseCSVStructure (doc_content doc);
          hs = headers structure;
          targetCols = (case csvConfig of None \<Rightarrow> hs | Some c \<Rightarrow> targetColumns c);
          contextCols' = (case csvConfig of None \<Rightarrow> [] | Some c \<Rightarrow> contextColumns c);
          sentimentCols = (case csvConfig of None \<Rightarrow> []
                           | Some c \<Rightarrow> (case sentimentContextColumns c of None \<Rightarrow> [] | Some s \<Rightarrow> s))
      in concat (map (row_bodies isHierarchical doc hs targetCols contextCols' sentimentCols)
                   (rows structure)))"

text \<open>
  The pieces of the sections of a hierarchical split, each with the title of the heading
  it stands under: \<open>hdr\<close> is the title in force at the head of the section list.
\<close>

fun section_pieces :: "Granularity \<Rightarrow> nat \<Rightarrow> string \<Rightarrow> string list \<Rightarrow> (string \<times> string) list" where
  "section_pieces strategy level hdr [] = []"
| "section_pieces strategy level hdr (s # ss) =
     (if trim s = [] then section_pieces strategy level hdr ss
      else if regex_test (re_is_header level) [] s
        then section_pieces strategy level (header_title s) ss
      else map (\<lambda>t. (t, hdr)) (if strategy = SUBSECTION then [trim s] else splitRawText s strategy)
             @ section_pieces strategy level hdr ss)"

definition hierarchical_bodies :: "SourceDocument \<Rightarrow> Granularity \<Rightarrow> nat \<Rightarrow> (string \<times> string) list" where
  "hierarchical_bodies doc strategy splitLevel =
     map (\<lambda>(t, hdr). (t, doc_name doc @ '' > '' @ hdr))
       (section_pieces strategy
          (if strategy = SUBSECTION then min 6 (splitLevel + 1) else splitLevel)
          ''Intro / Untitled''
          (js_split (re_level_header
                       (if strategy = SUBSECTION then min 6 (splitLevel + 1) else splitLevel))
             True (doc_content doc)))"

definition flat_bodies :: "SourceDocument \<Rightarrow> Granularity \<Rightarrow> (string \<times> string) list" where
  "flat_bodies doc strategy =
     map (\<lambda>t. (trim t, doc_name doc)) (splitRawText (doc_content doc) strategy)"

definition doc_bodies ::
  "Granularity \<Rightarrow> CsvSegmentationConfig option \<Rightarrow> bool \<Rightarrow> nat \<Rightarrow> SourceDocument
     \<Rightarrow> (string \<times> string) list" where
  "doc_bodies strategy csvConfig isHierarchical splitLevel doc =
     (if strategy = FILE then [(doc_content doc, doc_name doc)]
      else if doc_type doc = T_csv then csv_bodies doc csvConfig isHierarchical
      else if isHierarchical then hierarchical_bodies doc strategy splitLevel
      else flat_bodies doc strategy)"

text \<open>
  The chunks of a sequence of pairs, each with the document it comes from: the
  identifiers are consecutive draws, starting with draw \<open>n\<close>.
\<close>

fun numbered ::
  "idsource \<Rightarrow> Granularity \<Rightarrow> (SourceDocument \<times> string \<times> string) list \<Rightarrow> nat \<Rightarrow> Chunk list" where
  "numbered rnd ty [] n = []"
| "numbered rnd ty ((doc, text, sourceName) # items) n =
     \<lparr> chunk_id = rnd n, chunk_text = text, chunk_type = ty,
       chunk_sourceId = Some (doc_id doc), chunk_sourceName = Some sourceName,
       chunk_tags = [] \<rparr> # numbered rnd ty items (Suc n)"

definition ordered_items ::
  "Granularity \<Rightarrow> CsvSegmentationConfig option \<Rightarrow> bool \<Rightarrow> nat \<Rightarrow> SourceDocument list
     \<Rightarrow> (SourceDocument \<times> string \<times> string) list" where
  "ordered_items strategy csvConfig isHierarchical splitLevel docs =
     concat (map (\<lambda>doc. map (Pair doc) (doc_bodies strategy csvConfig isHierarchical splitLevel doc))
               docs)"

subsection \<open>Content modulo leading and trailing blank lines\<close>

text \<open>
  The round-trip property of the specification compares the joined line chunks with the
  content "modulo leading/trailing blank lines": the lines of the content without the
  blank ones at its start and at its end, joined by line breaks again.
\<close>

definition inner_lines :: "string \<Rightarrow> string list" where
  "inner_lines content =
     rev (dropWhile (\<lambda>l. \<not> nonblank l)
            (rev (dropWhile (\<lambda>l. \<not> nonblank l) (split_on LF content))))"

definition strip_blank_lines :: "string \<Rightarrow> string" where
  "strip_blank_lines content = join [LF] (inner_lines content)"

declare kwic_while.simps [code]

section \<open>Properties\<close>

lemma find_at_bounds:
  "find_at k s i = Some j \<Longrightarrow> k \<noteq> [] \<Longrightarrow> i \<le> j \<and> j < i + length s"
proof (induction s arbitrary: i)
  case Nil
  then show ?case by simp
next
  case (Cons c cs)
  show ?case
  proof (cases "take (length k) (c # cs) = k")
    case True
    with Cons.prems show ?thesis by simp
  next
    case False
    with Cons.prems have "find_at k cs (Suc i) = Some j" by simp
    from Cons.IH [OF this Cons.prems(2)] show ?thesis by simp
  qed
qed

lemma indexOf_bounds:
  assumes "indexOf s k st = Some j" and "k \<noteq> []"
  shows "st \<le> j \<and> j < length s"
proof (cases "st \<le> length s")
  case True
  then have "find_at k (drop st s) st = Some j"
    using assms(1) by (simp add: indexOf_def min_def)
  from find_at_bounds [OF this assms(2)] True show ?thesis by simp
next
  case False
  then have "find_at k [] (length s) = Some j"
    using assms(1) by (simp add: indexOf_def min_def)
  with assms(2) show ?thesis by simp
qed

lemma kwic_while_returns:
  assumes "keyword \<noteq> []"
  shows "\<exists>rs. kwic_while chunk keyword windowChars st results = Some (results @ rs)
           \<and> length rs \<le> length (chunk_text chunk) - st"
proof (induction "length (chunk_text chunk) - st" arbitrary: st results rule: less_induct)
  case less
  let ?hit = "indexOf (toLowerCase (chunk_text chunk)) (toLowerCase keyword) st"
  show ?case
  proof (cases ?hit)
    case None
    then have "kwic_while chunk keyword windowChars st results = Some (results @ [])"
      by (subst kwic_while.simps) simp
    then show ?thesis by force
  next
    case (Some i)
    have "toLowerCase keyword \<noteq> []" using assms by (simp add: toLowerCase_def)
    from indexOf_bounds [OF Some this]
    have b: "st \<le> i" "i < length (chunk_text chunk)" by (simp_all add: toLowerCase_def)
    then have "length (chunk_text chunk) - (i + 1) < length (chunk_text chunk) - st" by arith
    from less [OF this]
    obtain rs where rs:
      "kwic_while chunk keyword windowChars (i + 1)
         (results @ [kwic_record chunk keyword windowChars i])
       = Some ((results @ [kwic_record chunk keyword windowChars i]) @ rs)"
      "length rs \<le> length (chunk_text chunk) - (i + 1)" by blast
    have "kwic_while chunk keyword windowChars st results
            = Some (results @ (kwic_record chunk keyword windowChars i # rs))"
      using Some rs(1) by (subst kwic_while.simps) simp
    moreover have "length (kwic_record chunk keyword windowChars i # rs)
                     \<le> length (chunk_text chunk) - st"
      using rs(2) b by simp
    ultimately show ?thesis by blast
  qed
qed

lemma kwic_forEach_returns:
  assumes "keyword \<noteq> []"
  shows "\<exists>rs. kwic_forEach keyword windowChars chunks results = Some (results @ rs)
           \<and> length rs \<le> sum_list (map (\<lambda>c. length (chunk_text c)) chunks)"
proof (induction chunks arbitrary: results)
  case Nil
  then show ?case by simp
next
  case (Cons chunk chunks)
  from kwic_while_returns [OF assms, of chunk windowChars 0 results]
  obtain r1 where r1: "kwic_while chunk keyword windowChars 0 results = Some (results @ r1)"
    "length r1 \<le> length (chunk_text chunk)" by auto
  from Cons.IH [of "results @ r1"]
  obtain r2 where r2: "kwic_forEach keyword windowChars chunks (results @ r1)
      = Some ((results @ r1) @ r2)"
    "length r2 \<le> sum_list (map (\<lambda>c. length (chunk_text c)) chunks)" by blast
  have "kwic_forEach keyword windowChars (chunk # chunks) results = Some (results @ (r1 @ r2))"
    using r1(1) r2(1) by simp
  moreover have "length (r1 @ r2)
      \<le> sum_list (map (\<lambda>c. length (chunk_text c)) (chunk # chunks))"
    using r1(2) r2(2) by simp
  ultimately show ?case by blast
qed

text \<open>
  C10. For every chunk list, every window size and every non-empty keyword,
  \<open>generateKWIC\<close> returns: the result is \<open>Some\<close> list. Every hit of the scan loop lies
  at or after the scan index and inside the text, so the next index \<open>i + 1\<close> is strictly
  larger; the scan of one chunk, from index 0, emits at most as many records as the
  chunk's text has characters, and the whole result at most as many as all texts together.
\<close>

theorem generateKWIC_terminates:
  assumes "keyword \<noteq> []"
  shows "(\<exists>rs. generateKWIC chunks keyword windowChars = Some rs
            \<and> length rs \<le> sum_list (map (\<lambda>c. length (chunk_text c)) chunks))
       \<and> (\<exists>rs. kwic_while chunk keyword windowChars 0 [] = Some rs
            \<and> length rs \<le> length (chunk_text chunk))
       \<and> (\<forall>i. indexOf (toLowerCase (chunk_text chunk)) (toLowerCase keyword) startIndex = Some i
            \<longrightarrow> startIndex < i + 1 \<and> i < length (chunk_text chunk))"
proof (intro conjI allI impI)
  show "\<exists>rs. generateKWIC chunks keyword windowChars = Some rs
            \<and> length rs \<le> sum_list (map (\<lambda>c. length (chunk_text c)) chunks)"
    using kwic_forEach_returns [OF assms, of windowChars chunks "[]"]
    by (simp add: generateKWIC_def)
  show "\<exists>rs. kwic_while chunk keyword windowChars 0 [] = Some rs
            \<and> length rs \<le> length (chunk_text chunk)"
    using kwic_while_returns [OF assms, of chunk windowChars 0 "[]"] by simp
next
  fix i
  assume h: "indexOf (toLowerCase (chunk_text chunk)) (toLowerCase keyword) startIndex = Some i"
  have k: "toLowerCase keyword \<noteq> []" using assms by (simp add: toLowerCase_def)
  from indexOf_bounds [OF h k]
  show "startIndex < i + 1" and "i < length (chunk_text chunk)"
    by (simp_all add: toLowerCase_def)
qed

theorem generateKWIC_terminates_witness:
  "''cat'' \<noteq> []
   \<and> (\<exists>rs. generateKWIC
          [\<lparr> chunk_id = ''c1'', chunk_text = ''a cat sat near a cat'', chunk_type = PARAGRAPH,
             chunk_sourceId = None, chunk_sourceName = None, chunk_tags = [] \<rparr>] ''cat'' 5 = Some rs
        \<and> length rs \<le> sum_list (map (\<lambda>c. length (chunk_text c))
          [\<lparr> chunk_id = ''c1'', chunk_text = ''a cat sat near a cat'', chunk_type = PARAGRAPH,
             chunk_sourceId = None, chunk_sourceName = None, chunk_tags = [] \<rparr>]))"
proof -
  have k: "''cat'' \<noteq> []" by simp
  from generateKWIC_terminates [OF k] show ?thesis using k by blast
qed

lemma first_some_None: "(\<And>x. x \<in> set xs \<Longrightarrow> f x = None) \<Longrightarrow> first_some f xs = None"
  by (induction xs) auto

lemma one_no_head: "(\<And>c cs. s = c # cs \<Longrightarrow> \<not> p c) \<Longrightarrow> one p s k = None"
  by (cases s) (auto simp: one_def)

lemma re_newline_None:
  assumes "LF \<notin> set rest"
  shows "re_newline pre rest = None"
  unfolding re_newline_def rep_range_def
proof (rule first_some_None)
  fix n
  have "one (\<lambda>c. c = LF) (drop n rest) accept = None"
  proof (rule one_no_head)
    fix c cs assume "drop n rest = c # cs"
    then have "c \<in> set (drop n rest)" by simp
    then have "c \<in> set rest" by (rule in_set_dropD)
    with assms show "c \<noteq> LF" by auto
  qed
  then show "map_option (\<lambda>e. n + e) (one (\<lambda>c. c = LF) (drop n rest) accept) = None" by simp
qed

lemma split_loop_no_match:
  "(\<And>b r. set r \<subseteq> set rest \<Longrightarrow> m b r = None) \<Longrightarrow> split_loop m caps pre cur rest = [rev cur @ rest]"
proof (induction rest arbitrary: pre cur)
  case Nil
  then show ?case by simp
next
  case (Cons c cs)
  have "m pre (c # cs) = None" using Cons.prems by simp
  moreover have "split_loop m caps (c # pre) (c # cur) cs = [rev (c # cur) @ cs]"
    by (rule Cons.IH) (use Cons.prems in auto)
  ultimately show ?case by simp
qed

lemma js_split_newline_single:
  assumes "LF \<notin> set s"
  shows "js_split re_newline False s = [s]"
proof (cases "s = []")
  case True
  have "re_newline [] [] = None" by (rule re_newline_None) simp
  with True show ?thesis by (simp add: js_split_def)
next
  case False
  have "split_loop re_newline False [] [] s = [rev [] @ s]"
  proof (rule split_loop_no_match)
    fix b r assume "set r \<subseteq> set s"
    with assms have "LF \<notin> set r" by auto
    then show "re_newline b r = None" by (rule re_newline_None)
  qed
  with False show ?thesis by (simp add: js_split_def)
qed

lemma csv_lines_single: "LF \<notin> set content \<Longrightarrow> length (csv_lines content) < 2"
  by (simp add: csv_lines_def js_split_newline_single)

text \<open>
  C5. A content with fewer than two non-blank lines parses to the empty table, with no
  headers, no rows and \<open>totalRows = 0\<close>; so does every content without a line break,
  a lone header line among them. \<open>parseCSVStructure\<close> is a total function: no input
  makes it fail.
\<close>

theorem parseCSVStructure_degenerate:
  "(length (csv_lines content) < 2
      \<longrightarrow> parseCSVStructure content = \<lparr> headers = [], rows = [], totalRows = 0 \<rparr>)
 \<and> (LF \<notin> set content
      \<longrightarrow> parseCSVStructure content = \<lparr> headers = [], rows = [], totalRows = 0 \<rparr>)"
proof (intro conjI impI)
  assume "length (csv_lines content) < 2"
  then show "parseCSVStructure content = \<lparr> headers = [], rows = [], totalRows = 0 \<rparr>"
    by (simp add: parseCSVStructure_def)
next
  assume "LF \<notin> set content"
  then have "length (csv_lines content) < 2" by (rule csv_lines_single)
  then show "parseCSVStructure content = \<lparr> headers = [], rows = [], totalRows = 0 \<rparr>"
    by (simp add: parseCSVStructure_def)
qed

theorem parseCSVStructure_degenerate_witness:
  "length (csv_lines ''name,age,city'') < 2 \<and> LF \<notin> set ''name,age,city''
   \<and> parseCSVStructure ''name,age,city'' = \<lparr> headers = [], rows = [], totalRows = 0 \<rparr>"
proof -
  have a: "LF \<notin> set ''name,age,city''" by simp
  have b: "length (csv_lines ''name,age,city'') < 2" using a by (rule csv_lines_single)
  from parseCSVStructure_degenerate [of "''name,age,city''"] a b show ?thesis by blast
qed


text \<open>
  C6. For a table with at least one header column the analyze-column set of
  \<open>guessCSVConfig\<close> is not empty; when the heuristics pick no column, it is exactly the
  index of the last column.
\<close>

theorem guessCSVConfig_nonempty:
  assumes "headers structure \<noteq> []"
  shows "analyzeCols (guessCSVConfig structure) \<noteq> []
       \<and> (fst (guess_columns structure) = []
            \<longrightarrow> analyzeCols (guessCSVConfig structure) = [length (headers structure) - 1])"
  using assms by (simp add: guessCSVConfig_def split: prod.splits)

theorem guessCSVConfig_nonempty_witness:
  "headers \<lparr> headers = [''RespondentID'', ''Score''],
             rows = [[''17'', ''4''], [''18'', ''5'']], totalRows = 2 \<rparr> \<noteq> []
   \<and> fst (guess_columns \<lparr> headers = [''RespondentID'', ''Score''],
             rows = [[''17'', ''4''], [''18'', ''5'']], totalRows = 2 \<rparr>) = []
   \<and> analyzeCols (guessCSVConfig \<lparr> headers = [''RespondentID'', ''Score''],
             rows = [[''17'', ''4''], [''18'', ''5'']], totalRows = 2 \<rparr>) = [1]"
proof -
  let ?S = "\<lparr> headers = [''RespondentID'', ''Score''],
             rows = [[''17'', ''4''], [''18'', ''5'']], totalRows = 2 \<rparr>"
  have h: "headers ?S \<noteq> []" by simp
  have g: "fst (guess_columns ?S) = []" by code_simp
  from guessCSVConfig_nonempty [OF h] g h show ?thesis by simp
qed

lemma splitCSVLine_loop_nonempty: "splitCSVLine_loop prev inQuote current matches line \<noteq> []"
  by (induction line arbitrary: prev inQuote current matches) (simp_all add: Let_def)

lemma headers_parseCSVStructure:
  "headers (parseCSVStructure content) \<noteq> [] \<longleftrightarrow> 2 \<le> length (csv_lines content)"
  by (auto simp: parseCSVStructure_def Let_def splitCSVLine_def splitCSVLine_loop_nonempty)

text \<open>
  C7, as amended. A document from \<open>ingestManualText\<close> carries \<open>csvHeaders\<close> exactly
  when its kind is csv. A document from \<open>ingestFile\<close> carries \<open>csvHeaders\<close> exactly
  when its kind is csv and its content has at least two non-blank lines: a file taken for
  csv by its extension or media type whose content has no data row has an empty header
  list, which \<open>ingestFile\<close> stores as absent.
\<close>

theorem ingestion_csvHeaders:
  "(doc_csvHeaders (fst (ingestManualText rnd text n)) \<noteq> None
      \<longleftrightarrow> doc_type (fst (ingestManualText rnd text n)) = T_csv)
 \<and> (doc_csvHeaders (fst (ingestFile rnd file n)) \<noteq> None
      \<longleftrightarrow> doc_type (fst (ingestFile rnd file n)) = T_csv
          \<and> 2 \<le> length (csv_lines (file_text file)))"
proof
  show "doc_csvHeaders (fst (ingestManualText rnd text n)) \<noteq> None
      \<longleftrightarrow> doc_type (fst (ingestManualText rnd text n)) = T_csv"
    by (simp add: ingestManualText_def Let_def generateId_def)
  show "doc_csvHeaders (fst (ingestFile rnd file n)) \<noteq> None
      \<longleftrightarrow> doc_type (fst (ingestFile rnd file n)) = T_csv
          \<and> 2 \<le> length (csv_lines (file_text file))"
    using headers_parseCSVStructure [of "file_text file"]
    by (auto simp add: ingestFile_def Let_def generateId_def)
qed

text \<open>
  C7 as stated fails: the file \<open>survey.csv\<close> holding only a header line is ingested
  as csv without \<open>csvHeaders\<close>.
\<close>

theorem ingestFile_header_only_counterexample:
  "doc_type (fst (ingestFile example_ids
      \<lparr> file_name = ''survey.csv'', file_type = ''text/csv'', file_text = ''name,comment'' \<rparr> 0)) = T_csv
   \<and> doc_csvHeaders (fst (ingestFile example_ids
      \<lparr> file_name = ''survey.csv'', file_type = ''text/csv'', file_text = ''name,comment'' \<rparr> 0)) = None"
  by code_simp

theorem ingestion_csvHeaders_witness:
  "doc_type (fst (ingestFile example_ids
      \<lparr> file_name = ''notes.txt'', file_type = ''text/plain'',
         file_text = ''name,comment\<newline>ann,fine'' \<rparr> 0)) = T_csv
   \<and> 2 \<le> length (csv_lines ''name,comment\<newline>ann,fine'')
   \<and> doc_csvHeaders (fst (ingestFile example_ids
      \<lparr> file_name = ''notes.txt'', file_type = ''text/plain'',
         file_text = ''name,comment\<newline>ann,fine'' \<rparr> 0)) \<noteq> None
   \<and> doc_type (fst (ingestManualText example_ids ''name,comment\<newline>ann,fine'' 0)) = T_csv
   \<and> doc_csvHeaders (fst (ingestManualText example_ids ''name,comment\<newline>ann,fine'' 0)) \<noteq> None"
proof -
  let ?f = "\<lparr> file_name = ''notes.txt'', file_type = ''text/plain'',
         file_text = ''name,comment\<newline>ann,fine'' \<rparr>"
  have a: "doc_type (fst (ingestFile example_ids ?f 0)) = T_csv" by code_simp
  have b: "2 \<le> length (csv_lines ''name,comment\<newline>ann,fine'')" by code_simp
  have c: "doc_type (fst (ingestManualText example_ids ''name,comment\<newline>ann,fine'' 0)) = T_csv"
    by code_simp
  from ingestion_csvHeaders [of example_ids "''name,comment\<newline>ann,fine''" 0 ?f] a b c
  show ?thesis by simp
qed

subsection \<open>The program builds the sequence stated directly\<close>

lemma numbered_append:
  "numbered rnd ty (xs @ ys) n = numbered rnd ty xs n @ numbered rnd ty ys (n + length xs)"
  by (induction xs arbitrary: n) auto

lemma push_chunk_numbered:
  "push_chunk rnd ty doc body (acc, n) = (acc @ numbered rnd ty [(doc, body)] n, Suc n)"
  by (cases body) (simp add: push_chunk_def generateId_def)

lemma fold_numbered:
  assumes "\<And>x acc n. step x (acc, n)
             = (acc @ numbered rnd ty (map (Pair doc) (g x)) n, n + length (g x))"
  shows "fold step xs (acc, n)
           = (acc @ numbered rnd ty (map (Pair doc) (concat (map g xs))) n,
              n + length (concat (map g xs)))"
proof (induction xs arbitrary: acc n)
  case Nil
  then show ?case by simp
next
  case (Cons x xs)
  show ?case
    by (simp add: assms Cons.IH numbered_append add.assoc)
qed

lemma distinct_step_numbered:
  "distinct_step rnd ty doc hs contextStr row colName (acc, n)
     = (acc @ numbered rnd ty (map (Pair doc) (distinct_bodies doc hs contextStr row colName)) n,
        n + length (distinct_bodies doc hs contextStr row colName))"
  by (simp add: distinct_step_def distinct_bodies_def Let_def push_chunk_numbered)

lemma row_step_numbered:
  "row_step rnd ty hier doc hs targetCols contextCols' sentimentCols row (acc, n)
     = (acc @ numbered rnd ty
               (map (Pair doc) (row_bodies hier doc hs targetCols contextCols' sentimentCols row)) n,
        n + length (row_bodies hier doc hs targetCols contextCols' sentimentCols row))"
proof (cases hier)
  case True
  then show ?thesis
    using fold_numbered [where step = "distinct_step rnd ty doc hs
              (contextStr_of hs contextCols' sentimentCols row) row"
          and g = "distinct_bodies doc hs (contextStr_of hs contextCols' sentimentCols row) row",
          OF distinct_step_numbered]
    by (simp add: row_step_def row_bodies_def Let_def)
next
  case False
  then show ?thesis
    by (simp add: row_step_def row_bodies_def Let_def push_chunk_numbered)
qed

lemma segment_csv_numbered:
  "segment_csv rnd doc ty csvConfig hier n
     = (numbered rnd ty (map (Pair doc) (csv_bodies doc csvConfig hier)) n,
        n + length (csv_bodies doc csvConfig hier))"
  unfolding segment_csv_def csv_bodies_def Let_def
  using fold_numbered [where acc = "[]", OF row_step_numbered]
  by simp

lemma fold_push_numbered:
  "fold (\<lambda>segment. push_chunk rnd ty doc (segment, name)) segs (acc, n)
     = (acc @ numbered rnd ty (map (Pair doc) (map (\<lambda>t. (t, name)) segs)) n, n + length segs)"
proof (induction segs arbitrary: acc n)
  case Nil
  then show ?case by simp
next
  case (Cons s segs)
  show ?case by (simp add: push_chunk_numbered Cons.IH)
qed

lemma section_step_cases:
  "section_step rnd ty level doc s (hdr, acc, n) =
     (if trim s = [] then (hdr, acc, n)
      else if regex_test (re_is_header level) [] s then (header_title s, acc, n)
      else (hdr,
            acc @ numbered rnd ty
                    (map (Pair doc) (map (\<lambda>t. (t, doc_name doc @ '' > '' @ hdr))
                       (if ty = SUBSECTION then [trim s] else splitRawText s ty))) n,
            n + length (if ty = SUBSECTION then [trim s] else splitRawText s ty)))"
  by (simp add: section_step_def push_chunk_numbered fold_push_numbered)

lemma fold_section_step:
  "snd (fold (section_step rnd ty level doc) sections (hdr, acc, n))
     = (acc @ numbered rnd ty
               (map (Pair doc) (map (\<lambda>(t, h). (t, doc_name doc @ '' > '' @ h))
                  (section_pieces ty level hdr sections))) n,
        n + length (section_pieces ty level hdr sections))"
proof (induction sections arbitrary: hdr acc n)
  case Nil
  then show ?case by simp
next
  case (Cons s ss)
  show ?case
    by (simp add: section_step_cases Cons.IH numbered_append add.assoc comp_def)
qed

lemma segment_hierarchical_numbered:
  "segment_hierarchical rnd doc ty splitLevel n
     = (numbered rnd ty (map (Pair doc) (hierarchical_bodies doc ty splitLevel)) n,
        n + length (hierarchical_bodies doc ty splitLevel))"
  by (simp add: segment_hierarchical_def hierarchical_bodies_def Let_def fold_section_step)

lemma map_with_id_numbered:
  "map_with_id rnd
     (\<lambda>i text. \<lparr> chunk_id = i, chunk_text = f text, chunk_type = ty,
                 chunk_sourceId = Some (doc_id doc), chunk_sourceName = Some name,
                 chunk_tags = [] \<rparr>) ts n
   = (numbered rnd ty (map (Pair doc) (map (\<lambda>t. (f t, name)) ts)) n, n + length ts)"
  by (induction ts arbitrary: n) (simp_all add: generateId_def)

lemma segment_flat_numbered:
  "segment_flat rnd doc ty n
     = (numbered rnd ty (map (Pair doc) (flat_bodies doc ty)) n, n + length (flat_bodies doc ty))"
  by (simp add: segment_flat_def flat_bodies_def map_with_id_numbered)

lemma segment_doc_numbered:
  "segment_doc rnd ty csvConfig hier lvl doc n
     = (numbered rnd ty (map (Pair doc) (doc_bodies ty csvConfig hier lvl doc)) n,
        n + length (doc_bodies ty csvConfig hier lvl doc))"
  by (simp add: segment_doc_def doc_bodies_def push_chunk_numbered segment_csv_numbered
        segment_hierarchical_numbered segment_flat_numbered)

lemma fold_doc_step:
  "fold (doc_step rnd ty csvConfig hier lvl) docs (acc, n)
     = (acc @ numbered rnd ty (ordered_items ty csvConfig hier lvl docs) n,
        n + length (ordered_items ty csvConfig hier lvl docs))"
proof (induction docs arbitrary: acc n)
  case Nil
  then show ?case by (simp add: ordered_items_def)
next
  case (Cons d ds)
  have "ordered_items ty csvConfig hier lvl (d # ds)
          = map (Pair d) (doc_bodies ty csvConfig hier lvl d) @ ordered_items ty csvConfig hier lvl ds"
    by (simp add: ordered_items_def)
  moreover have "doc_step rnd ty csvConfig hier lvl d (acc, n)
      = (acc @ numbered rnd ty (map (Pair d) (doc_bodies ty csvConfig hier lvl d)) n,
         n + length (doc_bodies ty csvConfig hier lvl d))"
    by (simp add: doc_step_def segment_doc_numbered)
  ultimately show ?case
    by (simp add: Cons.IH numbered_append add.assoc)
qed

lemma performSegmentation_numbered:
  "performSegmentation rnd docs ty csvConfig hier lvl n
     = (numbered rnd ty (ordered_items ty csvConfig hier lvl docs) n,
        n + length (ordered_items ty csvConfig hier lvl docs))"
  by (simp add: performSegmentation_def fold_doc_step)

text \<open>
  C2. The chunks of \<open>performSegmentation\<close> are the chunks of \<open>ordered_items\<close>, numbered
  in that order: document after document in the order of the list, inside a document
  row after row or section after section, inside those the columns or split pieces in
  their order. In particular the chunks of a list \<open>ds1 @ ds2\<close> are the chunks of
  \<open>ds1\<close> followed by the chunks of \<open>ds2\<close>, made with the later draws.
\<close>

theorem performSegmentation_ordered:
  "fst (performSegmentation rnd docs strategy csvConfig isHierarchical splitLevel n)
     = numbered rnd strategy (ordered_items strategy csvConfig isHierarchical splitLevel docs) n
   \<and> fst (performSegmentation rnd (ds1 @ ds2) strategy csvConfig isHierarchical splitLevel n)
     = fst (performSegmentation rnd ds1 strategy csvConfig isHierarchical splitLevel n)
       @ fst (performSegmentation rnd ds2 strategy csvConfig isHierarchical splitLevel
               (snd (performSegmentation rnd ds1 strategy csvConfig isHierarchical splitLevel n)))"
proof
  show "fst (performSegmentation rnd docs strategy csvConfig isHierarchical splitLevel n)
     = numbered rnd strategy (ordered_items strategy csvConfig isHierarchical splitLevel docs) n"
    by (simp add: performSegmentation_numbered)
  have "ordered_items strategy csvConfig isHierarchical splitLevel (ds1 @ ds2)
          = ordered_items strategy csvConfig isHierarchical splitLevel ds1
            @ ordered_items strategy csvConfig isHierarchical splitLevel ds2"
    by (simp add: ordered_items_def)
  then show "fst (performSegmentation rnd (ds1 @ ds2) strategy csvConfig isHierarchical splitLevel n)
     = fst (performSegmentation rnd ds1 strategy csvConfig isHierarchical splitLevel n)
       @ fst (performSegmentation rnd ds2 strategy csvConfig isHierarchical splitLevel
               (snd (performSegmentation rnd ds1 strategy csvConfig isHierarchical splitLevel n)))"
    by (simp add: performSegmentation_numbered numbered_append)
qed

theorem performSegmentation_ordered_witness:
  "map (\<lambda>c. (chunk_id c, chunk_text c, chunk_sourceName c))
     (fst (performSegmentation example_ids
        [\<lparr> doc_id = ''d1'', doc_name = ''one.txt'', doc_content = ''p1\<newline>\<newline>p2'',
            doc_type = T_text, doc_csvHeaders = None \<rparr>,
         \<lparr> doc_id = ''d2'', doc_name = ''two.csv'', doc_content = ''q,r\<newline>x,y\<newline>z,w'',
            doc_type = T_csv, doc_csvHeaders = Some [''q'', ''r''] \<rparr>]
        PARAGRAPH None True 1 0))
   = [(''id'', ''p1'', Some ''one.txt > Intro / Untitled''),
      (''idx'', ''p2'', Some ''one.txt > Intro / Untitled''),
      (''idxx'', ''[Column: q]'' @ [LF] @ ''x'', Some ''two.csv > q''),
      (''idxxx'', ''[Column: r]'' @ [LF] @ ''y'', Some ''two.csv > r''),
      (''idxxxx'', ''[Column: q]'' @ [LF] @ ''z'', Some ''two.csv > q''),
      (''idxxxxx'', ''[Column: r]'' @ [LF] @ ''w'', Some ''two.csv > r'')]"
proof -
  let ?docs = "[\<lparr> doc_id = ''d1'', doc_name = ''one.txt'', doc_content = ''p1\<newline>\<newline>p2'',
            doc_type = T_text, doc_csvHeaders = None \<rparr>,
         \<lparr> doc_id = ''d2'', doc_name = ''two.csv'', doc_content = ''q,r\<newline>x,y\<newline>z,w'',
            doc_type = T_csv, doc_csvHeaders = Some [''q'', ''r''] \<rparr>]"
  have "fst (performSegmentation example_ids ?docs PARAGRAPH None True 1 0)
          = numbered example_ids PARAGRAPH (ordered_items PARAGRAPH None True 1 ?docs) 0"
    using performSegmentation_ordered [of example_ids ?docs PARAGRAPH None True 1 0] by blast
  moreover have "map (\<lambda>c. (chunk_id c, chunk_text c, chunk_sourceName c))
       (numbered example_ids PARAGRAPH (ordered_items PARAGRAPH None True 1 ?docs) 0)
     = [(''id'', ''p1'', Some ''one.txt > Intro / Untitled''),
      (''idx'', ''p2'', Some ''one.txt > Intro / Untitled''),
      (''idxx'', ''[Column: q]'' @ [LF] @ ''x'', Some ''two.csv > q''),
      (''idxxx'', ''[Column: r]'' @ [LF] @ ''y'', Some ''two.csv > r''),
      (''idxxxx'', ''[Column: q]'' @ [LF] @ ''z'', Some ''two.csv > q''),
      (''idxxxxx'', ''[Column: r]'' @ [LF] @ ''w'', Some ''two.csv > r'')]"
    by code_simp
  ultimately show ?thesis by simp
qed

lemma title_example_pieces:
  "section_pieces PARAGRAPH 2 ''Intro / Untitled''
     (js_split (re_level_header 2) True
        ''# Title\<newline>\<newline>## A\<newline>foo\<newline>\<newline>## B\<newline>bar'')
   = [(''# Title\<newline>'', ''Intro / Untitled''), (''\<newline>foo\<newline>'', ''A''),
      (''\<newline>bar'', ''B'')]"
  by code_simp

lemma title_example_trims:
  "trim ''# Title\<newline>'' = ''# Title''" "trim ''\<newline>foo\<newline>'' = ''foo''"
  "trim ''\<newline>bar'' = ''bar''"
  by code_simp+

text \<open>
  C3, as amended. The hierarchical split at level 2, with inner granularity paragraph,
  of a non-tabular document with the content
  \<open>"# Title\n\n## A\nfoo\n\n## B\nbar"\<close> yields three chunks, labelled
  \<open>"<doc> > Intro / Untitled"\<close>, \<open>"<doc> > A"\<close> and \<open>"<doc> > B"\<close>, whose texts are,
  after trimming, \<open>"# Title"\<close>, \<open>"foo"\<close> and \<open>"bar"\<close>: the title line is a heading
  of another level, hence ordinary content of the section before the first level-2
  heading.
\<close>

theorem hierarchical_title_example:
  assumes "doc_type doc \<noteq> T_csv"
    and "doc_content doc = ''# Title\<newline>\<newline>## A\<newline>foo\<newline>\<newline>## B\<newline>bar''"
  shows "map (\<lambda>c. (trim (chunk_text c), chunk_sourceName c))
           (fst (performSegmentation rnd [doc] PARAGRAPH csvConfig True 2 n))
         = [(''# Title'', Some (doc_name doc @ '' > Intro / Untitled'')),
            (''foo'', Some (doc_name doc @ '' > A'')),
            (''bar'', Some (doc_name doc @ '' > B''))]"
proof -
  have "doc_bodies PARAGRAPH csvConfig True 2 doc
          = [(''# Title\<newline>'', doc_name doc @ '' > Intro / Untitled''),
             (''\<newline>foo\<newline>'', doc_name doc @ '' > A''),
             (''\<newline>bar'', doc_name doc @ '' > B'')]"
    using assms title_example_pieces by (simp add: doc_bodies_def hierarchical_bodies_def)
  then show ?thesis
    by (simp add: performSegmentation_numbered ordered_items_def title_example_trims)
qed

theorem hierarchical_title_example_witness:
  "doc_type \<lparr> doc_id = ''d1'', doc_name = ''notes.md'',
       doc_content = ''# Title\<newline>\<newline>## A\<newline>foo\<newline>\<newline>## B\<newline>bar'',
       doc_type = T_markdown, doc_csvHeaders = None \<rparr> \<noteq> T_csv
   \<and> map (\<lambda>c. (trim (chunk_text c), chunk_sourceName c))
       (fst (performSegmentation example_ids
          [\<lparr> doc_id = ''d1'', doc_name = ''notes.md'',
              doc_content = ''# Title\<newline>\<newline>## A\<newline>foo\<newline>\<newline>## B\<newline>bar'',
              doc_type = T_markdown, doc_csvHeaders = None \<rparr>] PARAGRAPH None True 2 0))
     = [(''# Title'', Some ''notes.md > Intro / Untitled''),
        (''foo'', Some ''notes.md > A''), (''bar'', Some ''notes.md > B'')]"
proof -
  let ?d = "\<lparr> doc_id = ''d1'', doc_name = ''notes.md'',
       doc_content = ''# Title\<newline>\<newline>## A\<newline>foo\<newline>\<newline>## B\<newline>bar'',
       doc_type = T_markdown, doc_csvHeaders = None \<rparr>"
  have t: "doc_type ?d \<noteq> T_csv" by simp
  have c: "doc_content ?d = ''# Title\<newline>\<newline>## A\<newline>foo\<newline>\<newline>## B\<newline>bar''" by simp
  from hierarchical_title_example [OF t c, of example_ids None 0] t show ?thesis by simp
qed

text \<open>
  C3 as stated fails: on the document \<open>notes.md\<close> the split yields three chunks, the
  first of them for the Intro section, and their texts keep the line breaks around them.
\<close>

theorem hierarchical_title_counterexample:
  "map (\<lambda>c. (chunk_text c, chunk_sourceName c))
       (fst (performSegmentation example_ids
          [\<lparr> doc_id = ''d1'', doc_name = ''notes.md'',
              doc_content = ''# Title\<newline>\<newline>## A\<newline>foo\<newline>\<newline>## B\<newline>bar'',
              doc_type = T_markdown, doc_csvHeaders = None \<rparr>] PARAGRAPH None True 2 0))
     = [(''# Title\<newline>'', Some ''notes.md > Intro / Untitled''),
        (''\<newline>foo\<newline>'', Some ''notes.md > A''), (''\<newline>bar'', Some ''notes.md > B'')]"
  by code_simp

subsection \<open>Blank chunks\<close>

lemma nonblank_iff: "nonblank t \<longleftrightarrow> (\<exists>c \<in> set t. \<not> is_space c)"
proof -
  have "trim t = [] \<longleftrightarrow> (\<forall>c \<in> set (dropWhile is_space t). is_space c)"
    by (simp add: trim_def dropWhile_eq_Nil_conv)
  also have "\<dots> \<longleftrightarrow> dropWhile is_space t = []"
  proof
    assume a: "\<forall>c \<in> set (dropWhile is_space t). is_space c"
    show "dropWhile is_space t = []"
    proof (rule ccontr)
      assume n: "dropWhile is_space t \<noteq> []"
      then have "\<not> is_space (hd (dropWhile is_space t))" by (rule hd_dropWhile)
      moreover have "hd (dropWhile is_space t) \<in> set (dropWhile is_space t)" using n by simp
      ultimately show False using a by blast
    qed
  next
    assume "dropWhile is_space t = []"
    then show "\<forall>c \<in> set (dropWhile is_space t). is_space c" by (auto dest: set_dropWhileD)
  qed
  also have "\<dots> \<longleftrightarrow> (\<forall>c \<in> set t. is_space c)" by (simp add: dropWhile_eq_Nil_conv)
  finally show ?thesis by (auto simp: nonblank_def)
qed

lemma nonblank_append_right: "nonblank s \<Longrightarrow> nonblank (p @ s)"
  by (auto simp: nonblank_iff)

lemma nonblank_trim: "nonblank s \<Longrightarrow> nonblank (trim s)"
proof -
  assume "nonblank s"
  then have ne: "dropWhile is_space (rev (dropWhile is_space s)) \<noteq> []"
    by (simp add: nonblank_def trim_def)
  then have "\<not> is_space (hd (dropWhile is_space (rev (dropWhile is_space s))))"
    by (rule hd_dropWhile)
  moreover have "hd (dropWhile is_space (rev (dropWhile is_space s))) \<in> set (trim s)"
    using ne by (simp add: trim_def)
  ultimately show "nonblank (trim s)" by (auto simp: nonblank_iff)
qed

lemma cell_nonblank: "cell hs row c \<noteq> [] \<Longrightarrow> nonblank (cell hs row c)"
proof -
  assume a: "cell hs row c \<noteq> []"
  then obtain x where x: "cell hs row c = trim x"
    by (auto simp: cell_def split: option.splits if_splits)
  with a have "nonblank x" by (simp add: nonblank_def)
  then show ?thesis using x by (simp add: nonblank_trim)
qed

lemma row_bodies_nonblank:
  assumes "(t, nm) \<in> set (row_bodies hier doc hs targetCols contextCols' sentimentCols row)"
  shows "nonblank t"
proof (cases hier)
  case False
  with assms show ?thesis
    by (auto simp: row_bodies_def nonblank_def [symmetric] intro: nonblank_append_right
          split: if_splits)
next
  case True
  with assms obtain col where
    "(t, nm) \<in> set (distinct_bodies doc hs (contextStr_of hs contextCols' sentimentCols row) row col)"
    by (auto simp: row_bodies_def)
  then have "cell hs row col \<noteq> []"
    and t: "t = (meta_prefix (contextStr_of hs contextCols' sentimentCols row)
                  @ ''[Column: '' @ col @ '']'' @ [LF]) @ cell hs row col"
    by (auto simp: distinct_bodies_def split: if_splits)
  then have "nonblank (cell hs row col)" by (simp add: cell_nonblank)
  then show ?thesis unfolding t by (rule nonblank_append_right)
qed

lemma csv_bodies_nonblank:
  "(t, nm) \<in> set (csv_bodies doc csvConfig hier) \<Longrightarrow> nonblank t"
  by (auto simp: csv_bodies_def Let_def dest: row_bodies_nonblank)

lemma splitRawText_filtered:
  "drops_blank strategy \<Longrightarrow> t \<in> set (splitRawText s strategy) \<Longrightarrow> nonblank t"
  by (auto simp: splitRawText_def drops_blank_def)

lemma splitRawText_of_nonblank:
  "strategy \<noteq> SENTENCE \<Longrightarrow> nonblank s \<Longrightarrow> t \<in> set (splitRawText s strategy) \<Longrightarrow> nonblank t"
  by (cases strategy) (auto simp: splitRawText_def)

lemma section_pieces_nonblank:
  "strategy \<noteq> SENTENCE \<Longrightarrow> (t, h) \<in> set (section_pieces strategy level hdr ss) \<Longrightarrow> nonblank t"
proof (induction ss arbitrary: hdr)
  case Nil
  then show ?case by simp
next
  case (Cons s ss)
  show ?case
  proof (cases "trim s = []")
    case True
    with Cons show ?thesis by simp
  next
    case False
    then have nb: "nonblank s" by (simp add: nonblank_def)
    show ?thesis
    proof (cases "regex_test (re_is_header level) [] s")
      case True
      with False Cons show ?thesis by simp
    next
      case nh: False
      from Cons.prems(2) False nh
      consider "t \<in> set (if strategy = SUBSECTION then [trim s] else splitRawText s strategy)"
        | "(t, h) \<in> set (section_pieces strategy level hdr ss)"
        by (auto split: if_splits)
      then show ?thesis
      proof cases
        case 1
        then show ?thesis
          using nb Cons.prems(1)
          by (auto simp: nonblank_trim splitRawText_of_nonblank split: if_splits)
      next
        case 2
        with Cons show ?thesis by blast
      qed
    qed
  qed
qed

lemma doc_bodies_nonblank:
  assumes "strategy \<noteq> FILE"
    and "doc_type doc = T_csv \<or> drops_blank strategy \<or> (hier \<and> strategy \<noteq> SENTENCE)"
    and "(t, nm) \<in> set (doc_bodies strategy csvConfig hier lvl doc)"
  shows "nonblank t"
proof (cases "doc_type doc = T_csv")
  case True
  with assms show ?thesis by (auto simp: doc_bodies_def dest: csv_bodies_nonblank)
next
  case ncsv: False
  show ?thesis
  proof (cases hier)
    case True
    have ns: "strategy \<noteq> SENTENCE" using assms(2) ncsv True by (auto simp: drops_blank_def)
    from assms(1,3) ncsv True obtain h where
      "(t, h) \<in> set (section_pieces strategy
          (if strategy = SUBSECTION then min 6 (lvl + 1) else lvl) ''Intro / Untitled''
          (js_split (re_level_header (if strategy = SUBSECTION then min 6 (lvl + 1) else lvl))
             True (doc_content doc)))"
      by (auto simp: doc_bodies_def hierarchical_bodies_def)
    with ns show ?thesis by (rule section_pieces_nonblank)
  next
    case False
    with assms(2) ncsv have d: "drops_blank strategy" by simp
    from assms(1,3) ncsv False obtain p where
      "p \<in> set (splitRawText (doc_content doc) strategy)" and t: "t = trim p"
      by (auto simp: doc_bodies_def flat_bodies_def)
    with d have "nonblank p" by (simp add: splitRawText_filtered)
    then show ?thesis unfolding t by (rule nonblank_trim)
  qed
qed

lemma numbered_text:
  "c \<in> set (numbered rnd ty items n) \<Longrightarrow> \<exists>d nm. (d, chunk_text c, nm) \<in> set items"
proof (induction items arbitrary: n)
  case Nil
  then show ?case by simp
next
  case (Cons item items)
  obtain d t nm where item: "item = (d, t, nm)" by (cases item) auto
  from Cons.prems item
  consider "chunk_text c = t" | "c \<in> set (numbered rnd ty items (Suc n))" by auto
  then show ?case
  proof cases
    case 1
    with item show ?thesis by auto
  next
    case 2
    from Cons.IH [OF this] show ?thesis by auto
  qed
qed

lemma numbered_texts: "map chunk_text (numbered rnd ty items n) = map (\<lambda>(d, t, nm). t) items"
  by (induction items arbitrary: n) auto

lemma doc_bodies_nonblank_any:
  assumes "(strategy \<noteq> SENTENCE \<and> nonblank (doc_content doc))
         \<or> (strategy \<noteq> FILE \<and> (doc_type doc = T_csv \<or> drops_blank strategy
                \<or> (hier \<and> strategy \<noteq> SENTENCE)))"
    and "(t, nm) \<in> set (doc_bodies strategy csvConfig hier lvl doc)"
  shows "nonblank t"
proof (cases "strategy \<noteq> FILE \<and> (doc_type doc = T_csv \<or> drops_blank strategy
                \<or> (hier \<and> strategy \<noteq> SENTENCE))")
  case True
  then show ?thesis using assms(2) doc_bodies_nonblank by blast
next
  case False
  with assms(1) have ns: "strategy \<noteq> SENTENCE" and nb: "nonblank (doc_content doc)" by blast+
  show ?thesis
  proof (cases "strategy = FILE")
    case True
    with assms(2) nb show ?thesis by (simp add: doc_bodies_def)
  next
    case nf: False
    with False have ncsv: "doc_type doc \<noteq> T_csv" and nh: "\<not> hier" using ns by blast+
    from assms(2) nf ncsv nh obtain p where
      "p \<in> set (splitRawText (doc_content doc) strategy)" and t: "t = trim p"
      by (auto simp: doc_bodies_def flat_bodies_def)
    with ns nb have "nonblank p" using splitRawText_of_nonblank by blast
    then show ?thesis unfolding t by (rule nonblank_trim)
  qed
qed

lemma file_items:
  "ordered_items FILE csvConfig hier lvl docs = map (\<lambda>d. (d, doc_content d, doc_name d)) docs"
  by (induction docs) (simp_all add: ordered_items_def doc_bodies_def)

text \<open>
  C1, as amended. Every chunk of \<open>performSegmentation\<close> has a text that is not empty
  after trimming when, for each document, either the granularity is not \<open>SENTENCE\<close> and
  the content of the document is not blank, or the granularity is not \<open>FILE\<close> and the
  document is tabular, or is split by \<open>PARAGRAPH\<close>, \<open>LINE\<close>, \<open>SECTION\<close> or
  \<open>TURN\<close>, or is split hierarchically by a granularity other than \<open>SENTENCE\<close>.
  Under \<open>FILE\<close> the texts of the chunks are the contents of the documents, one chunk
  for each document in order, blank or not.
\<close>

theorem performSegmentation_nonblank:
  "((\<forall>doc \<in> set docs.
        (strategy \<noteq> SENTENCE \<and> nonblank (doc_content doc))
      \<or> (strategy \<noteq> FILE \<and> (doc_type doc = T_csv \<or> drops_blank strategy
             \<or> (isHierarchical \<and> strategy \<noteq> SENTENCE))))
     \<longrightarrow> (\<forall>c \<in> set (fst (performSegmentation rnd docs strategy csvConfig isHierarchical
                               splitLevel n)).
            trim (chunk_text c) \<noteq> []))
   \<and> map chunk_text (fst (performSegmentation rnd docs FILE csvConfig isHierarchical splitLevel n))
       = map doc_content docs"
proof (intro conjI impI ballI)
  fix c
  assume h: "\<forall>doc \<in> set docs.
        (strategy \<noteq> SENTENCE \<and> nonblank (doc_content doc))
      \<or> (strategy \<noteq> FILE \<and> (doc_type doc = T_csv \<or> drops_blank strategy
             \<or> (isHierarchical \<and> strategy \<noteq> SENTENCE)))"
  assume "c \<in> set (fst (performSegmentation rnd docs strategy csvConfig isHierarchical splitLevel n))"
  then have "c \<in> set (numbered rnd strategy
                (ordered_items strategy csvConfig isHierarchical splitLevel docs) n)"
    by (simp add: performSegmentation_numbered)
  then obtain d nm where
    "(d, chunk_text c, nm) \<in> set (ordered_items strategy csvConfig isHierarchical splitLevel docs)"
    using numbered_text by blast
  then have d: "d \<in> set docs"
    and b: "(chunk_text c, nm) \<in> set (doc_bodies strategy csvConfig isHierarchical splitLevel d)"
    by (auto simp: ordered_items_def)
  from h d have "(strategy \<noteq> SENTENCE \<and> nonblank (doc_content d))
      \<or> (strategy \<noteq> FILE \<and> (doc_type d = T_csv \<or> drops_blank strategy
             \<or> (isHierarchical \<and> strategy \<noteq> SENTENCE)))" by blast
  from doc_bodies_nonblank_any [OF this b]
  show "trim (chunk_text c) \<noteq> []" by (simp add: nonblank_def)
next
  show "map chunk_text (fst (performSegmentation rnd docs FILE csvConfig isHierarchical splitLevel n))
       = map doc_content docs"
    by (simp add: performSegmentation_numbered numbered_texts file_items comp_def)
qed

theorem performSegmentation_nonblank_witness:
  "PHRASE \<noteq> SENTENCE
   \<and> nonblank ''  one, two ''
   \<and> map chunk_text (fst (performSegmentation example_ids
         [\<lparr> doc_id = ''d1'', doc_name = ''a.txt'', doc_content = ''  one, two '',
             doc_type = T_text, doc_csvHeaders = None \<rparr>] PHRASE None False 1 0))
       = [''one, two'']
   \<and> list_all (\<lambda>c. trim (chunk_text c) \<noteq> [])
       (fst (performSegmentation example_ids
         [\<lparr> doc_id = ''d1'', doc_name = ''a.txt'', doc_content = ''  one, two '',
             doc_type = T_text, doc_csvHeaders = None \<rparr>] PHRASE None False 1 0))
   \<and> map chunk_text (fst (performSegmentation example_ids
         [\<lparr> doc_id = ''d1'', doc_name = ''a.txt'', doc_content = ''  one, two '',
             doc_type = T_text, doc_csvHeaders = None \<rparr>] FILE None False 1 0))
       = [''  one, two '']"
proof -
  let ?docs = "[\<lparr> doc_id = ''d1'', doc_name = ''a.txt'', doc_content = ''  one, two '',
             doc_type = T_text, doc_csvHeaders = None \<rparr>]"
  have a: "PHRASE \<noteq> SENTENCE" by simp
  have b: "nonblank ''  one, two ''" by code_simp
  have h: "\<forall>doc \<in> set ?docs.
        (PHRASE \<noteq> SENTENCE \<and> nonblank (doc_content doc))
      \<or> (PHRASE \<noteq> FILE \<and> (doc_type doc = T_csv \<or> drops_blank PHRASE
             \<or> (False \<and> PHRASE \<noteq> SENTENCE)))"
    using b by simp
  have e: "map chunk_text (fst (performSegmentation example_ids ?docs PHRASE None False 1 0))
             = [''one, two'']"
    by code_simp
  note t = performSegmentation_nonblank [of ?docs PHRASE False example_ids None 1 0]
  from t h have "\<forall>c \<in> set (fst (performSegmentation example_ids ?docs PHRASE None False 1 0)).
      trim (chunk_text c) \<noteq> []" by blast
  then have n: "list_all (\<lambda>c. trim (chunk_text c) \<noteq> [])
       (fst (performSegmentation example_ids ?docs PHRASE None False 1 0))"
    by (simp add: list_all_iff)
  from t have f: "map chunk_text (fst (performSegmentation example_ids ?docs FILE None False 1 0))
       = map doc_content ?docs" by blast
  from a b e n f show ?thesis by simp
qed

text \<open>
  C1 as stated fails: under \<open>FILE\<close> an empty document gives one chunk with the empty
  text.
\<close>

theorem performSegmentation_blank_counterexample:
  "map (\<lambda>c. trim (chunk_text c))
     (fst (performSegmentation example_ids
        [\<lparr> doc_id = ''d1'', doc_name = ''empty.txt'', doc_content = '''',
            doc_type = T_text, doc_csvHeaders = None \<rparr>] FILE None False 1 0))
   = ['''']"
  by code_simp

subsection \<open>Line chunks\<close>

lemma filter_dropWhile_not: "filter P (dropWhile (\<lambda>x. \<not> P x) xs) = filter P xs"
  by (induction xs) auto

lemma filter_inner_lines:
  "filter nonblank (inner_lines content) = filter nonblank (split_on LF content)"
  by (simp add: inner_lines_def rev_filter [symmetric] filter_dropWhile_not)

lemma filter_all: "(\<And>x. x \<in> set xs \<Longrightarrow> P x) \<Longrightarrow> filter P xs = xs"
  by (induction xs) auto

lemma map_trim_id: "(\<And>x. x \<in> set xs \<Longrightarrow> trim x = x) \<Longrightarrow> map trim xs = xs"
  by (induction xs) auto

lemma line_chunk_texts:
  assumes "doc_type doc \<noteq> T_csv"
  shows "map chunk_text (fst (performSegmentation rnd [doc] LINE csvConfig False splitLevel n))
           = map trim (filter nonblank (split_on LF (doc_content doc)))"
  using assms
  by (simp add: performSegmentation_numbered numbered_texts ordered_items_def doc_bodies_def
        flat_bodies_def splitRawText_def comp_def)

text \<open>
  C8, as amended. For a non-tabular document whose lines, between the blank lines at its
  start and at its end, are not blank and carry no white space at either end, the chunks
  of the flat split by \<open>LINE\<close>, joined by single line breaks, are the content without
  its leading and trailing blank lines.
\<close>

theorem line_split_roundtrip:
  assumes "doc_type doc \<noteq> T_csv"
    and "\<forall>l \<in> set (inner_lines (doc_content doc)). nonblank l \<and> trim l = l"
  shows "join [LF] (map chunk_text
           (fst (performSegmentation rnd [doc] LINE csvConfig False splitLevel n)))
         = strip_blank_lines (doc_content doc)"
proof -
  have "filter nonblank (split_on LF (doc_content doc))
          = filter nonblank (inner_lines (doc_content doc))"
    by (simp add: filter_inner_lines)
  also have "\<dots> = inner_lines (doc_content doc)"
    using assms(2) by (intro filter_all) blast
  finally have "map trim (filter nonblank (split_on LF (doc_content doc)))
                  = inner_lines (doc_content doc)"
    using assms(2) by (simp add: map_trim_id)
  then show ?thesis
    using assms(1) by (simp add: line_chunk_texts strip_blank_lines_def)
qed

theorem line_split_roundtrip_witness:
  "doc_type \<lparr> doc_id = ''d1'', doc_name = ''list.txt'',
       doc_content = ''\<newline> \<newline>alpha\<newline>beta gamma\<newline>\<newline>'',
       doc_type = T_text, doc_csvHeaders = None \<rparr> \<noteq> T_csv
   \<and> inner_lines ''\<newline> \<newline>alpha\<newline>beta gamma\<newline>\<newline>'' = [''alpha'', ''beta gamma'']
   \<and> list_all (\<lambda>l. nonblank l \<and> trim l = l) [''alpha'', ''beta gamma'']
   \<and> join [LF] (map chunk_text
         (fst (performSegmentation example_ids
            [\<lparr> doc_id = ''d1'', doc_name = ''list.txt'',
                doc_content = ''\<newline> \<newline>alpha\<newline>beta gamma\<newline>\<newline>'',
                doc_type = T_text, doc_csvHeaders = None \<rparr>] LINE None False 1 0)))
     = ''alpha\<newline>beta gamma''"
proof -
  let ?d = "\<lparr> doc_id = ''d1'', doc_name = ''list.txt'',
       doc_content = ''\<newline> \<newline>alpha\<newline>beta gamma\<newline>\<newline>'',
       doc_type = T_text, doc_csvHeaders = None \<rparr>"
  have t: "doc_type ?d \<noteq> T_csv" by simp
  have i: "inner_lines ''\<newline> \<newline>alpha\<newline>beta gamma\<newline>\<newline>'' = [''alpha'', ''beta gamma'']"
    by code_simp
  have l: "list_all (\<lambda>l. nonblank l \<and> trim l = l) [''alpha'', ''beta gamma'']"
    by code_simp
  have h: "\<forall>l \<in> set (inner_lines (doc_content ?d)). nonblank l \<and> trim l = l"
    using i l by (simp add: list_all_iff)
  have s: "strip_blank_lines (doc_content ?d) = ''alpha\<newline>beta gamma''"
    using i by (simp add: strip_blank_lines_def)
  from line_split_roundtrip [OF t h, of example_ids None 1 0] s t i l
  show ?thesis by simp
qed

text \<open>
  C8 as stated fails: the content \<open>"a\n\nb"\<close> has no leading or trailing blank line,
  and its line chunks join to \<open>"a\nb"\<close>: the blank line between the two is dropped.
\<close>

theorem line_split_roundtrip_counterexample:
  "join [LF] (map chunk_text
      (fst (performSegmentation example_ids
         [\<lparr> doc_id = ''d1'', doc_name = ''list.txt'', doc_content = ''a\<newline>\<newline>b'',
             doc_type = T_text, doc_csvHeaders = None \<rparr>] LINE None False 1 0)))
     = ''a\<newline>b''
   \<and> strip_blank_lines ''a\<newline>\<newline>b'' = ''a\<newline>\<newline>b''
   \<and> ''a\<newline>b'' \<noteq> ''a\<newline>\<newline>b''"
  by code_simp

subsection \<open>N-grams\<close>

lemma rep_accept:
  "rep p lo s accept
     = (if lo \<le> length (takeWhile p s) then Some (length (takeWhile p s)) else None)"
proof -
  let ?k = "length (takeWhile p s)"
  have m: "min (length s) ?k = ?k" by (simp add: length_takeWhile_le)
  show ?thesis
  proof (cases "lo \<le> ?k")
    case True
    then have "rev [lo ..< Suc ?k] = ?k # rev [lo ..< ?k]" by simp
    then show ?thesis using True by (simp add: rep_def rep_range_def m accept_def)
  next
    case False
    then show ?thesis by (simp add: rep_def rep_range_def m)
  qed
qed

lemma re_spaces_None: "re_spaces pre (c # r) = None \<Longrightarrow> \<not> is_space c"
  by (auto simp: re_spaces_def rep_accept split: if_splits)

lemma re_spaces_not_empty: "re_spaces pre r \<noteq> Some 0"
  by (auto simp: re_spaces_def rep_accept)

lemma split_loop_pieces:
  "(\<forall>pre c r. m pre (c # r) = None \<longrightarrow> Q c) \<Longrightarrow> (\<forall>pre r. m pre r \<noteq> Some 0)
     \<Longrightarrow> \<forall>c \<in> set cur. Q c \<Longrightarrow> piece \<in> set (split_loop m False pre cur rest)
     \<Longrightarrow> \<forall>c \<in> set piece. Q c"
proof (induction m False pre cur rest rule: split_loop.induct)
  case (1 m pre cur)
  then show ?case by simp
next
  case (2 m pre cur c cs)
  show ?case
  proof (cases "m pre (c # cs)")
    case None
    then have "Q c" using "2.prems"(1) by blast
    with 2 None show ?thesis by simp
  next
    case (Some k)
    then have k: "k \<noteq> 0" using "2.prems"(2) by metis
    with Some "2.prems"(4)
    consider "piece = rev cur"
      | "piece \<in> set (split_loop m False (rev (take k (c # cs)) @ pre) [] (drop k (c # cs)))"
      by auto
    then show ?thesis
    proof cases
      case 1
      with "2.prems"(3) show ?thesis by simp
    next
      case b: 2
      have "\<not> (k = 0 \<and> cur = [])" using k by simp
      from "2.hyps"(3) [OF Some this "2.prems"(1,2) _ b] show ?thesis by simp
    qed
  qed
qed

lemma js_split_spaces_pieces:
  assumes "piece \<in> set (js_split re_spaces False s)"
  shows "\<forall>c \<in> set piece. \<not> is_space c"
proof (cases "s = []")
  case True
  with assms show ?thesis by (auto simp: js_split_def split: if_splits)
next
  case False
  with assms have mem: "piece \<in> set (split_loop re_spaces False [] [] s)"
    by (simp add: js_split_def)
  have h1: "\<forall>pre c r. re_spaces pre (c # r) = None \<longrightarrow> \<not> is_space c"
    using re_spaces_None by blast
  have h2: "\<forall>pre r. re_spaces pre r \<noteq> Some 0" using re_spaces_not_empty by blast
  have h3: "\<forall>c \<in> set []. \<not> is_space c" by simp
  show ?thesis by (rule split_loop_pieces [OF h1 h2 h3 mem])
qed

lemma token_no_space: "t \<in> set (tokenize text) \<Longrightarrow> CHR '' '' \<notin> set t"
proof -
  assume "t \<in> set (tokenize text)"
  then have "\<forall>c \<in> set t. \<not> is_space c"
    by (auto simp: tokenize_def dest: js_split_spaces_pieces)
  moreover have "is_space (CHR '' '')" by (simp add: is_space_def)
  ultimately show ?thesis by blast
qed

lemma split_char_no_sep: "sep \<notin> set a \<Longrightarrow> split_char sep cur a = [rev cur @ a]"
  by (induction a arbitrary: cur) auto

lemma split_char_sep:
  "sep \<notin> set a \<Longrightarrow> split_char sep cur (a @ sep # rest) = (rev cur @ a) # split_char sep [] rest"
  by (induction a arbitrary: cur) auto

lemma ngram_words_2:
  "CHR '' '' \<notin> set a \<Longrightarrow> CHR '' '' \<notin> set b \<Longrightarrow> ngram_words (a @ CHR '' '' # b) = [a, b]"
  by (simp add: ngram_words_def split_on_def split_char_sep split_char_no_sep)

lemma ngram_words_3:
  "CHR '' '' \<notin> set a \<Longrightarrow> CHR '' '' \<notin> set b \<Longrightarrow> CHR '' '' \<notin> set c
     \<Longrightarrow> ngram_words (a @ CHR '' '' # b @ CHR '' '' # c) = [a, b, c]"
  by (simp add: ngram_words_def split_on_def split_char_sep split_char_no_sep)

lemma bump_keys:
  "\<forall>x \<in> set m. P (fst x) \<Longrightarrow> P k \<Longrightarrow> \<forall>x \<in> set (bump m k). P (fst x)"
  by (induction m k rule: bump.induct) auto

lemma bigram_loop_keys:
  "\<forall>t \<in> set ts. CHR '' '' \<notin> set t \<Longrightarrow> \<forall>x \<in> set m. stop_free 2 (fst x)
     \<Longrightarrow> \<forall>x \<in> set (bigram_loop ts m). stop_free 2 (fst x)"
proof (induction ts m rule: bigram_loop.induct)
  case (1 a b ts m)
  let ?m = "if \<not> is_stop_word a \<and> \<not> is_stop_word b then bump m (a @ '' '' @ b) else m"
  have "\<forall>x \<in> set ?m. stop_free 2 (fst x)"
  proof (cases "\<not> is_stop_word a \<and> \<not> is_stop_word b")
    case True
    then have "stop_free 2 (a @ '' '' @ b)"
      using "1.prems"(1) by (simp add: stop_free_def ngram_words_2)
    with "1.prems"(2) have "\<forall>x \<in> set (bump m (a @ '' '' @ b)). stop_free 2 (fst x)"
      by (rule bump_keys)
    with True show ?thesis by simp
  next
    case False
    with "1.prems"(2) show ?thesis by auto
  qed
  moreover have "\<forall>t \<in> set (b # ts). CHR '' '' \<notin> set t" using "1.prems"(1) by simp
  ultimately have "\<forall>x \<in> set (bigram_loop (b # ts) ?m). stop_free 2 (fst x)"
    by (intro "1.IH")
  then show ?case by simp
qed simp_all

lemma trigram_loop_keys:
  "\<forall>t \<in> set ts. CHR '' '' \<notin> set t \<Longrightarrow> \<forall>x \<in> set m. stop_free 3 (fst x)
     \<Longrightarrow> \<forall>x \<in> set (trigram_loop ts m). stop_free 3 (fst x)"
proof (induction ts m rule: trigram_loop.induct)
  case (1 a b c ts m)
  let ?m = "if \<not> is_stop_word a \<and> \<not> is_stop_word b \<and> \<not> is_stop_word c
            then bump m (a @ '' '' @ b @ '' '' @ c) else m"
  have "\<forall>x \<in> set ?m. stop_free 3 (fst x)"
  proof (cases "\<not> is_stop_word a \<and> \<not> is_stop_word b \<and> \<not> is_stop_word c")
    case True
    then have "stop_free 3 (a @ '' '' @ b @ '' '' @ c)"
      using "1.prems"(1) by (simp add: stop_free_def ngram_words_3)
    with "1.prems"(2) have "\<forall>x \<in> set (bump m (a @ '' '' @ b @ '' '' @ c)). stop_free 3 (fst x)"
      by (rule bump_keys)
    with True show ?thesis by simp
  next
    case False
    with "1.prems"(2) show ?thesis by auto
  qed
  moreover have "\<forall>t \<in> set (b # c # ts). CHR '' '' \<notin> set t" using "1.prems"(1) by simp
  ultimately have "\<forall>x \<in> set (trigram_loop (b # c # ts) ?m). stop_free 3 (fst x)"
    by (intro "1.IH")
  then show ?case by simp
qed simp_all

lemma fold_count_chunk_keys:
  "\<forall>x \<in> set bi. stop_free 2 (fst x) \<Longrightarrow> \<forall>x \<in> set tri. stop_free 3 (fst x)
     \<Longrightarrow> (\<forall>x \<in> set (fst (fold count_chunk chunks (bi, tri))). stop_free 2 (fst x))
       \<and> (\<forall>x \<in> set (snd (fold count_chunk chunks (bi, tri))). stop_free 3 (fst x))"
proof (induction chunks arbitrary: bi tri)
  case Nil
  then show ?case by simp
next
  case (Cons chunk chunks)
  have t: "\<forall>t \<in> set (tokenize (chunk_text chunk)). CHR '' '' \<notin> set t"
    using token_no_space by blast
  have s: "count_chunk chunk (bi, tri)
         = (bigram_loop (tokenize (chunk_text chunk)) bi, trigram_loop (tokenize (chunk_text chunk)) tri)"
    by (simp add: count_chunk_def Let_def)
  have b: "\<forall>x \<in> set (bigram_loop (tokenize (chunk_text chunk)) bi). stop_free 2 (fst x)"
    using t Cons.prems(1) by (rule bigram_loop_keys)
  have c: "\<forall>x \<in> set (trigram_loop (tokenize (chunk_text chunk)) tri). stop_free 3 (fst x)"
    using t Cons.prems(2) by (rule trigram_loop_keys)
  from Cons.IH [OF b c] show ?case by (simp add: s)
qed

lemma format_texts: "e \<in> set (format m ty) \<Longrightarrow> \<exists>x \<in> set m. ngram_text e = fst x"
proof -
  assume "e \<in> set (format m ty)"
  then have "e \<in> set (sort_key (\<lambda>e. - int (ngram_value e))
          (map (\<lambda>(t, v). \<lparr> ngram_text = t, ngram_value = v, ngram_type = ty \<rparr>) m))"
    unfolding format_def by (rule in_set_takeD)
  then have "e \<in> set (map (\<lambda>(t, v). \<lparr> ngram_text = t, ngram_value = v, ngram_type = ty \<rparr>) m)"
    by simp
  then obtain x where x: "x \<in> set m"
    "e = (\<lambda>(t, v). \<lparr> ngram_text = t, ngram_value = v, ngram_type = ty \<rparr>) x"
    by (auto simp: image_iff)
  obtain t v where tv: "x = (t, v)" by (cases x) auto
  have "ngram_text e = fst x" unfolding x(2) tv by simp
  with x(1) show ?thesis by blast
qed



lemma cat_counts:
  "bigram_loop (tokenize ''the cat sat. the cat ran.'') [] = [(''cat sat'', 1), (''cat ran'', 1)]"
  "trigram_loop (tokenize ''the cat sat. the cat ran.'') [] = []"
  "is_stop_word ''the''"
  by code_simp+

lemma cat_example:
  "format (bigram_loop (tokenize ''the cat sat. the cat ran.'') []) bigram
     = [\<lparr> ngram_text = ''cat sat'', ngram_value = 1, ngram_type = bigram \<rparr>,
        \<lparr> ngram_text = ''cat ran'', ngram_value = 1, ngram_type = bigram \<rparr>]"
  by (simp add: cat_counts format_def)



text \<open>
  C9. Every bigram returned by \<open>generateNgrams\<close> consists of two words and every
  trigram of three, none of them a stop word. For a single chunk with the text
  \<open>"the cat sat. the cat ran."\<close> the bigrams are \<open>"cat sat"\<close> and \<open>"cat ran"\<close>, each
  with count 1, and \<open>"the"\<close> is a stop word.
\<close>

theorem generateNgrams_stop_free:
  "(\<forall>e \<in> set (bigrams (generateNgrams chunks)). stop_free 2 (ngram_text e))
   \<and> (\<forall>e \<in> set (trigrams (generateNgrams chunks)). stop_free 3 (ngram_text e))
   \<and> (chunk_text chunk = ''the cat sat. the cat ran.''
        \<longrightarrow> bigrams (generateNgrams [chunk])
              = [\<lparr> ngram_text = ''cat sat'', ngram_value = 1, ngram_type = bigram \<rparr>,
                 \<lparr> ngram_text = ''cat ran'', ngram_value = 1, ngram_type = bigram \<rparr>]
            \<and> is_stop_word ''the'')"
proof -
  obtain bi tri where f: "fold count_chunk chunks ([], []) = (bi, tri)" by force
  have "(\<forall>x \<in> set (fst (fold count_chunk chunks ([], []))). stop_free 2 (fst x))
      \<and> (\<forall>x \<in> set (snd (fold count_chunk chunks ([], []))). stop_free 3 (fst x))"
    by (rule fold_count_chunk_keys) simp_all
  with f have k: "\<forall>x \<in> set bi. stop_free 2 (fst x)" "\<forall>x \<in> set tri. stop_free 3 (fst x)"
    by simp_all
  have a: "\<forall>e \<in> set (bigrams (generateNgrams chunks)). stop_free 2 (ngram_text e)"
  proof
    fix e assume "e \<in> set (bigrams (generateNgrams chunks))"
    then have "e \<in> set (format bi bigram)" using f by (simp add: generateNgrams_def)
    then have "\<exists>x \<in> set bi. ngram_text e = fst x" by (rule format_texts)
    with k(1) show "stop_free 2 (ngram_text e)" by auto
  qed
  have b: "\<forall>e \<in> set (trigrams (generateNgrams chunks)). stop_free 3 (ngram_text e)"
  proof
    fix e assume "e \<in> set (trigrams (generateNgrams chunks))"
    then have "e \<in> set (format tri trigram)" using f by (simp add: generateNgrams_def)
    then have "\<exists>x \<in> set tri. ngram_text e = fst x" by (rule format_texts)
    with k(2) show "stop_free 3 (ngram_text e)" by auto
  qed
  have c: "chunk_text chunk = ''the cat sat. the cat ran.''
        \<longrightarrow> bigrams (generateNgrams [chunk])
              = [\<lparr> ngram_text = ''cat sat'', ngram_value = 1, ngram_type = bigram \<rparr>,
                 \<lparr> ngram_text = ''cat ran'', ngram_value = 1, ngram_type = bigram \<rparr>]
            \<and> is_stop_word ''the''"
    using cat_example cat_counts(3) by (simp add: generateNgrams_def count_chunk_def Let_def)
  from a b c show ?thesis by blast
qed

theorem generateNgrams_stop_free_witness:
  "chunk_text \<lparr> chunk_id = ''c1'', chunk_text = ''the cat sat. the cat ran.'',
        chunk_type = PARAGRAPH, chunk_sourceId = None, chunk_sourceName = None,
        chunk_tags = [] \<rparr> = ''the cat sat. the cat ran.''
   \<and> list_all (\<lambda>e. stop_free 2 (ngram_text e))
        (bigrams (generateNgrams
           [\<lparr> chunk_id = ''c1'', chunk_text = ''the cat sat. the cat ran.'',
               chunk_type = PARAGRAPH, chunk_sourceId = None, chunk_sourceName = None,
               chunk_tags = [] \<rparr>]))
   \<and> bigrams (generateNgrams
           [\<lparr> chunk_id = ''c1'', chunk_text = ''the cat sat. the cat ran.'',
               chunk_type = PARAGRAPH, chunk_sourceId = None, chunk_sourceName = None,
               chunk_tags = [] \<rparr>])
       = [\<lparr> ngram_text = ''cat sat'', ngram_value = 1, ngram_type = bigram \<rparr>,
          \<lparr> ngram_text = ''cat ran'', ngram_value = 1, ngram_type = bigram \<rparr>]"
proof -
  let ?c = "\<lparr> chunk_id = ''c1'', chunk_text = ''the cat sat. the cat ran.'',
        chunk_type = PARAGRAPH, chunk_sourceId = None, chunk_sourceName = None,
        chunk_tags = [] \<rparr>"
  have t: "chunk_text ?c = ''the cat sat. the cat ran.''" by simp
  from generateNgrams_stop_free [of "[?c]" ?c] t show ?thesis
    by (simp add: list_all_iff)
qed

subsection \<open>Speaker turns\<close>

lemma split_loop_no_test:
  "\<not> regex_test m pre rest \<Longrightarrow> split_loop m caps pre cur rest = [rev cur @ rest]"
proof (induction rest arbitrary: pre cur)
  case Nil
  then show ?case by simp
next
  case (Cons c cs)
  from Cons.prems have n: "m pre (c # cs) = None" and r: "\<not> regex_test m (c # pre) cs"
    by simp_all
  from Cons.IH [OF r, of "c # cur"] n show ?case by simp
qed

lemma js_split_no_test: "\<not> regex_test m [] s \<Longrightarrow> js_split m caps s = [s]"
  by (cases s) (simp_all add: js_split_def split_loop_no_test)

lemma find_at_member: "find_at k s i = Some j \<Longrightarrow> k \<noteq> [] \<Longrightarrow> hd k \<in> set s"
proof (induction s arbitrary: i)
  case Nil
  then show ?case by simp
next
  case (Cons c cs)
  show ?case
  proof (cases "take (length k) (c # cs) = k")
    case True
    have "hd (take (length k) (c # cs)) = c" using Cons.prems(2) by (cases k) simp_all
    then have "hd k = c" unfolding True .
    then show ?thesis by simp
  next
    case False
    with Cons.prems have "find_at k cs (Suc i) = Some j" by simp
    from Cons.IH [OF this Cons.prems(2)] show ?thesis by simp
  qed
qed

lemma includes_colon_nonblank: "includes_str text '':'' \<Longrightarrow> trim text \<noteq> []"
proof -
  assume "includes_str text '':''"
  then obtain j where "find_at '':'' text 0 = Some j"
    by (auto simp: includes_str_def indexOf_def)
  then have "hd '':'' \<in> set text" by (rule find_at_member) simp
  then have m: "CHR '':'' \<in> set text" by simp
  have "\<not> is_space (CHR '':'')" by (simp add: is_space_def)
  with m have "\<exists>c \<in> set text. \<not> is_space c" by blast
  then have "nonblank text" unfolding nonblank_iff .
  then show ?thesis unfolding nonblank_def .
qed

text \<open>
  C4, as amended. Under \<open>TURN\<close>, \<open>splitSingleText\<close> (the splitter of
  \<open>splitDocuments\<close>) gives the result of the paragraph split when the text has no line
  break followed by a speaker pattern and no colon anywhere. When the text has no such
  pattern but has a colon, there is no fallback: the result is the whole trimmed text as
  one chunk of type \<open>TURN\<close>.
\<close>

theorem turn_fallback:
  "(\<not> regex_test re_speaker [] text1 \<and> \<not> includes_str text1 '':''
      \<longrightarrow> splitSingleText rnd text1 TURN n = splitSingleText rnd text1 PARAGRAPH n)
 \<and> (\<not> regex_test re_speaker [] text2 \<and> includes_str text2 '':''
      \<longrightarrow> splitSingleText rnd text2 TURN n = ([plain_chunk TURN (rnd n) (trim text2)], Suc n))"
proof (intro conjI impI)
  assume "\<not> regex_test re_speaker [] text1 \<and> \<not> includes_str text1 '':''"
  then show "splitSingleText rnd text1 TURN n = splitSingleText rnd text1 PARAGRAPH n"
    by simp
next
  assume a: "\<not> regex_test re_speaker [] text2 \<and> includes_str text2 '':''"
  then have s: "js_split re_speaker False text2 = [text2]" by (simp add: js_split_no_test)
  from a have t: "trim text2 \<noteq> []" by (simp add: includes_colon_nonblank)
  show "splitSingleText rnd text2 TURN n = ([plain_chunk TURN (rnd n) (trim text2)], Suc n)"
    using a s t by (simp add: generateId_def)
qed

lemma turn_examples:
  "\<not> regex_test re_speaker [] ''first\<newline>\<newline>second''"
  "\<not> includes_str ''first\<newline>\<newline>second'' '':''"
  "\<not> regex_test re_speaker [] ''note: first\<newline>\<newline>second''"
  "includes_str ''note: first\<newline>\<newline>second'' '':''"
  by code_simp+

theorem turn_fallback_witness:
  "\<not> regex_test re_speaker [] ''first\<newline>\<newline>second''
   \<and> \<not> includes_str ''first\<newline>\<newline>second'' '':''
   \<and> splitSingleText example_ids ''first\<newline>\<newline>second'' TURN 0
       = splitSingleText example_ids ''first\<newline>\<newline>second'' PARAGRAPH 0
   \<and> \<not> regex_test re_speaker [] ''note: first\<newline>\<newline>second''
   \<and> includes_str ''note: first\<newline>\<newline>second'' '':''
   \<and> splitSingleText example_ids ''note: first\<newline>\<newline>second'' TURN 0
       = ([plain_chunk TURN (example_ids 0) (trim ''note: first\<newline>\<newline>second'')], Suc 0)"
  using turn_fallback [of "''first\<newline>\<newline>second''" example_ids 0
                          "''note: first\<newline>\<newline>second''"] turn_examples
  by blast

text \<open>
  C4 as stated fails. In \<open>performSegmentation\<close> the text \<open>"first\n\nsecond"\<close>, which
  has no speaker line, stays one chunk under \<open>TURN\<close>, where the paragraph split gives
  two. In \<open>splitDocuments\<close> the text \<open>"note: first\n\nsecond"\<close>, which has no speaker
  line either but a colon, stays one chunk too.
\<close>

theorem turn_fallback_counterexample:
  "\<not> regex_test re_speaker [] ''first\<newline>\<newline>second''
   \<and> map chunk_text (fst (performSegmentation example_ids
         [\<lparr> doc_id = ''d1'', doc_name = ''talk.txt'', doc_content = ''first\<newline>\<newline>second'',
             doc_type = T_text, doc_csvHeaders = None \<rparr>] TURN None False 1 0))
       = [''first\<newline>\<newline>second'']
   \<and> map chunk_text (fst (performSegmentation example_ids
         [\<lparr> doc_id = ''d1'', doc_name = ''talk.txt'', doc_content = ''first\<newline>\<newline>second'',
             doc_type = T_text, doc_csvHeaders = None \<rparr>] PARAGRAPH None False 1 0))
       = [''first'', ''second'']
   \<and> \<not> regex_test re_speaker [] ''note: first\<newline>\<newline>second''
   \<and> map chunk_text (fst (splitDocuments example_ids
         [\<lparr> doc_id = ''d1'', doc_name = ''talk.txt'', doc_content = ''note: first\<newline>\<newline>second'',
             doc_type = T_text, doc_csvHeaders = None \<rparr>] TURN 0))
       = [''note: first\<newline>\<newline>second'']
   \<and> map chunk_text (fst (splitDocuments example_ids
         [\<lparr> doc_id = ''d1'', doc_name = ''talk.txt'', doc_content = ''note: first\<newline>\<newline>second'',
             doc_type = T_text, doc_csvHeaders = None \<rparr>] PARAGRAPH 0))
       = [''note: first'', ''second'']"
  by code_simp

end
